theory Spec2Isabelle
  imports Main "HOL-Library.Word"
begin

unbundle bit_operations_syntax

section \<open>The SSD1306 driver of mt32-pi (src/lcd/ssd1306.cpp)\<close>

text \<open>
  Conventions of the embedding.
  \<^item> \<open>u8\<close> and \<open>u16\<close> are words. C++ promotes them to \<open>int\<close> before every arithmetic
    or bitwise operator; the promoted value is \<open>uint w\<close>, the operator works on \<open>int\<close>
    (no operation of this file leaves the range of a 32-bit \<open>int\<close>: the largest value is
    \<open>0xFF << 8\<close>, the smallest \<open>~(1 << 7)\<close>), and storing back into a \<open>u8\<close> or \<open>u16\<close>
    truncates: \<open>word_of_int\<close>.
  \<^item> A member function takes the object and returns \<open>error + object\<close>. What is undefined
    behaviour in C++ (an access outside an array, a null pointer dereference, a shift by a
    negative count) and a failed \<open>assert\<close> are \<open>Inl\<close> values.
\<close>

type_synonym u8 = "8 word"
type_synonym u16 = "16 word"

datatype error = AssertionFailed | NullPointer | OutOfBounds | UndefinedShift

subsection \<open>Compile-time font conversion\<close>

text \<open>\<open>using CharData = u8[8]\<close>: the eight rows of a glyph, row 0 first.\<close>

type_synonym CharData = "u8 list"

text \<open>
  \<open>SingleColumn\<close>: \<open>u8 bit = 5 - nColumn; u8 column = 0;
  for (u8 i = 0; i < 8; ++i) column |= (CharData[i] >> bit & 1) << i;\<close>
  The source calls it with \<open>nColumn < 6\<close> only, so the shift count is at most 5.
\<close>

definition SingleColumn :: "CharData \<Rightarrow> u8 \<Rightarrow> u8" where
  "SingleColumn charData nColumn =
     (let bit = (word_of_int (5 - uint nColumn) :: u8)
      in foldl (\<lambda>column i.
           word_of_int (uint column OR push_bit i (drop_bit (unat bit) (uint (charData ! i)) AND 1)))
         0 [0..<8])"

text \<open>
  \<open>DoubleColumn\<close>: \<open>u8 singleColumn = SingleColumn(CharData, nColumn); u16 column = 0;
  for (u8 i = 0; i < 8; ++i) { bool bit = singleColumn >> i & 1;
  column |= bit << i * 2 | bit << (i * 2 + 1); }\<close>
\<close>

definition DoubleColumn :: "CharData \<Rightarrow> u8 \<Rightarrow> u16" where
  "DoubleColumn charData nColumn =
     (let singleColumn = SingleColumn charData nColumn
      in foldl (\<lambda>column i.
           let bit = (drop_bit i (uint singleColumn) AND 1 \<noteq> 0)
           in word_of_int (uint column OR
                (push_bit (i * 2) (of_bool bit) OR push_bit (i * 2 + 1) (of_bool bit))))
         0 [0..<8])"

text \<open>
  The constructor of \<open>Font<N, F>\<close>: \<open>mCharData[i][j] = Function(CharData[i], j)\<close> for
  every glyph \<open>i < N\<close> and column \<open>j < 6\<close>. The source table \<open>Font6x8\<close> (lcd/font6x8.h)
  is a parameter.
\<close>

definition Font :: "(CharData \<Rightarrow> u8 \<Rightarrow> 'c) \<Rightarrow> CharData list \<Rightarrow> 'c list list" where
  "Font Function charData = map (\<lambda>g. map (\<lambda>j. Function g (of_nat j)) [0..<6]) charData"

definition FontSingle :: "CharData list \<Rightarrow> u8 list list" where
  "FontSingle Font6x8 = Font SingleColumn Font6x8"

definition FontDouble :: "CharData list \<Rightarrow> u16 list list" where
  "FontDouble Font6x8 = Font DoubleColumn Font6x8"

subsection \<open>The driver object\<close>

text \<open>
  The bus transport \<open>CI2CMaster\<close> is an external collaborator: a blocking
  \<open>Write(address, buffer, count)\<close> whose status the driver ignores. It is modelled by the
  log of the writes it has received, oldest first: the device address and the \<open>count\<close>
  bytes read from the buffer.
\<close>

type_synonym CI2CMaster = "(u8 \<times> u8 list) list"

definition I2C_Write :: "u8 \<Rightarrow> u8 list \<Rightarrow> nat \<Rightarrow> CI2CMaster \<Rightarrow> error + CI2CMaster" where
  "I2C_Write address buffer count bus =
     (if count \<le> length buffer then Inr (bus @ [(address, take count buffer)])
      else Inl OutOfBounds)"

text \<open>
  The members of \<open>CSSD1306\<close>. \<open>mPartLevels\<close> and \<open>mPeakLevels\<close> are inherited from the
  base class \<open>CMT32LCD\<close>; \<open>mI2CMaster\<close> is a pointer, \<open>None\<close> when null.

  Modelled from the spec: the headers lcd/ssd1306.h and lcd/mt32lcd.h that declare the
  members are missing. The level and the peak of a channel are integers in [0,16], held
  here as \<open>u8\<close>; the framebuffer is a byte array whose declared size is the parameter
  \<open>nFramebufferSize\<close> of the constructor below.
\<close>

record CSSD1306 =
  mPartLevels :: "u8 list"
  mPeakLevels :: "u8 list"
  mI2CMaster :: "CI2CMaster option"
  mAddress :: u8
  mHeight :: u8
  mFramebuffer :: "u8 list"

text \<open>A \<open>for\<close> loop over the elements of a list whose body can fail.\<close>

fun for_each :: "('a \<Rightarrow> 's \<Rightarrow> error + 's) \<Rightarrow> 'a list \<Rightarrow> 's \<Rightarrow> error + 's" where
  "for_each body [] s = Inr s"
| "for_each body (x # xs) s =
     (case body x s of Inl e \<Rightarrow> Inl e | Inr s' \<Rightarrow> for_each body xs s')"

text \<open>Running one member function after another: the second runs if the first returned.\<close>

definition and_then :: "error + 'a \<Rightarrow> ('a \<Rightarrow> error + 'b) \<Rightarrow> error + 'b" where
  "and_then r f = (case r of Inl e \<Rightarrow> Inl e | Inr x \<Rightarrow> f x)"

text \<open>An assignment \<open>array[offset] = value\<close>; outside the array it is undefined behaviour.\<close>

definition store :: "nat \<Rightarrow> 'a \<Rightarrow> 'a list \<Rightarrow> error + 'a list" where
  "store offset v xs = (if offset < length xs then Inr (xs[offset := v]) else Inl OutOfBounds)"

definition InitSequence :: "u8 list" where
  "InitSequence =
     [0xAE, 0x81, 0x7F, 0xA6, 0x20, 0x0, 0x21, 0x00, 0x7F, 0x22, 0x00, 0x03, 0xA1, 0xA8, 0x1F,
      0xC8, 0xD3, 0x00, 0xDA, 0x02, 0xD5, 0x80, 0xD9, 0x22, 0xDB, 0x20, 0x8D, 0x14, 0xA4, 0xAF]"

text \<open>
  The constructor: \<open>mFramebuffer{0x40}\<close> sets the first byte and zeroes the rest, then
  \<open>assert(nHeight == 32 || nHeight == 64)\<close>. The levels come from the constructor of the
  base class, which is not part of the source: they are parameters.
\<close>

definition CSSD1306_new ::
  "nat \<Rightarrow> u8 list \<Rightarrow> u8 list \<Rightarrow> CI2CMaster option \<Rightarrow> u8 \<Rightarrow> u8 \<Rightarrow> error + CSSD1306" where
  "CSSD1306_new nFramebufferSize partLevels peakLevels pI2CMaster nAddress nHeight =
     (if nHeight = 32 \<or> nHeight = 64
      then Inr \<lparr> mPartLevels = partLevels, mPeakLevels = peakLevels,
                 mI2CMaster = pI2CMaster, mAddress = nAddress, mHeight = nHeight,
                 mFramebuffer = 0x40 # replicate (nFramebufferSize - 1) 0 \<rparr>
      else Inl AssertionFailed)"

text \<open>
  \<open>Initialize\<close>: \<open>assert(mI2CMaster != nullptr)\<close>, the check of the height, then one
  write of the two bytes \<open>{0x80, byte}\<close> for every byte of \<open>InitSequence\<close>.
\<close>

definition Initialize :: "CSSD1306 \<Rightarrow> error + (bool \<times> CSSD1306)" where
  "Initialize this =
     (case mI2CMaster this of
        None \<Rightarrow> Inl AssertionFailed
      | Some bus \<Rightarrow>
          if \<not> (mHeight this = 32 \<or> mHeight this = 64) then Inr (False, this)
          else
            (case for_each (\<lambda>byte. I2C_Write (mAddress this) ([0x80, 0][1 := byte]) 2)
                    InitSequence bus of
               Inl e \<Rightarrow> Inl e
             | Inr bus' \<Rightarrow> Inr (True, this\<lparr>mI2CMaster := Some bus'\<rparr>)))"

text \<open>\<open>WriteFramebuffer\<close>: \<open>mI2CMaster->Write(mAddress, mFramebuffer, mHeight * 16 + 1)\<close>.\<close>

definition WriteFramebuffer :: "CSSD1306 \<Rightarrow> error + CSSD1306" where
  "WriteFramebuffer this =
     (case mI2CMaster this of
        None \<Rightarrow> Inl NullPointer
      | Some bus \<Rightarrow>
          (case I2C_Write (mAddress this) (mFramebuffer this) (unat (mHeight this) * 16 + 1) bus of
             Inl e \<Rightarrow> Inl e
           | Inr bus' \<Rightarrow> Inr (this\<lparr>mI2CMaster := Some bus'\<rparr>)))"

subsection \<open>Pixels\<close>

text \<open>
  \<open>SetPixel\<close>: \<open>nX &= 0x7f; nY &= 0x3f;
  mFramebuffer[((nY & 0xf8) << 4) + nX + 1] |= 1 << (nY & 7);\<close>
\<close>

definition SetPixel :: "u8 \<Rightarrow> u8 \<Rightarrow> CSSD1306 \<Rightarrow> error + CSSD1306" where
  "SetPixel nX nY this =
     (let x = (word_of_int (uint nX AND 0x7f) :: u8);
          y = (word_of_int (uint nY AND 0x3f) :: u8);
          offset = nat (push_bit 4 (uint y AND 0xf8) + uint x + 1);
          fb = mFramebuffer this
      in if offset < length fb
         then Inr (this\<lparr>mFramebuffer :=
                fb[offset := word_of_int (uint (fb ! offset) OR push_bit (nat (uint y AND 7)) 1)]\<rparr>)
         else Inl OutOfBounds)"

text \<open>
  \<open>ClearPixel\<close>: the same masks and offset, then
  \<open>mFramebuffer[...] &= ~(1 << (nY & 7));\<close>
\<close>

definition ClearPixel :: "u8 \<Rightarrow> u8 \<Rightarrow> CSSD1306 \<Rightarrow> error + CSSD1306" where
  "ClearPixel nX nY this =
     (let x = (word_of_int (uint nX AND 0x7f) :: u8);
          y = (word_of_int (uint nY AND 0x3f) :: u8);
          offset = nat (push_bit 4 (uint y AND 0xf8) + uint x + 1);
          fb = mFramebuffer this
      in if offset < length fb
         then Inr (this\<lparr>mFramebuffer :=
                fb[offset := word_of_int (uint (fb ! offset) AND NOT (push_bit (nat (uint y AND 7)) 1))]\<rparr>)
         else Inl OutOfBounds)"

subsection \<open>Glyphs and text\<close>

text \<open>
  The two bytes that \<open>DrawChar\<close> stores for a 16-bit column of a glyph:
  \<open>fontColumn & 0xFF\<close> and \<open>(fontColumn >> 8) & 0xFF\<close>.
\<close>

definition LowByte :: "u16 \<Rightarrow> u8" where
  "LowByte fontColumn = word_of_int (uint fontColumn AND 0xFF)"

definition HighByte :: "u16 \<Rightarrow> u8" where
  "HighByte fontColumn = word_of_int (drop_bit 8 (uint fontColumn) AND 0xFF)"

text \<open>
  One round of the loop of \<open>DrawChar\<close>, for the column \<open>i\<close> of the glyph. The lookup
  \<open>FontDouble[static_cast<u8>(chChar - ' ')][i]\<close> is outside the table when the index
  is not below the number of glyphs.
\<close>

definition DrawChar_column ::
  "u16 list list \<Rightarrow> u8 \<Rightarrow> nat \<Rightarrow> nat \<Rightarrow> bool \<Rightarrow> bool \<Rightarrow> nat \<Rightarrow> u8 list \<Rightarrow> error + u8 list" where
  "DrawChar_column font chChar rowOffset columnOffset bInverted bDoubleWidth i fb =
     (let index = unat (word_of_int (uint chChar - 32) :: u8)
      in if \<not> (index < length font \<and> i < length (font ! index)) then Inl OutOfBounds
         else
           let glyphColumn = font ! index ! i;
               fontColumn = (if 0 < i \<and> bInverted
                             then (word_of_int (uint glyphColumn XOR 0x3FFF) :: u16)
                             else glyphColumn);
               offset = rowOffset + columnOffset + (if bDoubleWidth then i * 2 else i)
           in case store offset (LowByte fontColumn) fb of
                Inl e \<Rightarrow> Inl e
              | Inr fb1 \<Rightarrow>
                  (case store (offset + 128) (HighByte fontColumn) fb1 of
                     Inl e \<Rightarrow> Inl e
                   | Inr fb2 \<Rightarrow>
                       if bDoubleWidth
                       then (case store (offset + 1) (fb2 ! offset) fb2 of
                               Inl e \<Rightarrow> Inl e
                             | Inr fb3 \<Rightarrow> store (offset + 128 + 1) (fb3 ! (offset + 128)) fb3)
                       else Inr fb2))"

text \<open>
  \<open>DrawChar\<close>: \<open>rowOffset = nCursorY * 128 * 2\<close>,
  \<open>columnOffset = nCursorX * (bDoubleWidth ? 12 : 6) + 4\<close>, the character \<open>'\xFF'\<close>
  replaced by \<open>'\x80'\<close>, then the six columns. A \<open>char\<close> is its byte.
\<close>

definition DrawChar ::
  "CharData list \<Rightarrow> u8 \<Rightarrow> u8 \<Rightarrow> u8 \<Rightarrow> bool \<Rightarrow> bool \<Rightarrow> CSSD1306 \<Rightarrow> error + CSSD1306" where
  "DrawChar Font6x8 chChar nCursorX nCursorY bInverted bDoubleWidth this =
     (let rowOffset = unat nCursorY * 128 * 2;
          columnOffset = unat nCursorX * (if bDoubleWidth then 12 else 6) + 4;
          ch = (if chChar = 0xFF then 0x80 else chChar)
      in case for_each
                (DrawChar_column (FontDouble Font6x8) ch rowOffset columnOffset bInverted bDoubleWidth)
                [0..<6] (mFramebuffer this) of
           Inl e \<Rightarrow> Inl e
         | Inr fb \<Rightarrow> Inr (this\<lparr>mFramebuffer := fb\<rparr>))"

text \<open>
  \<open>Print\<close> calls \<open>DrawChar\<close> with three arguments. Modelled from the spec: the default
  arguments are declared in the missing header lcd/ssd1306.h; the spec gives \<open>Print\<close> a
  fixed 6 pixel pitch, so both \<open>bInverted\<close> and \<open>bDoubleWidth\<close> default to false.

  The first loop, \<open>while (*pText && nCursorX < 20) { DrawChar(*pText++, nCursorX, nCursorY);
  ++nCursorX; }\<close>. The text is the list of its bytes; the end of the list stands for the
  terminating NUL, and a zero byte inside the list ends the text as well.
\<close>

fun Print_text ::
  "CharData list \<Rightarrow> u8 list \<Rightarrow> u8 \<Rightarrow> u8 \<Rightarrow> CSSD1306 \<Rightarrow> error + (u8 \<times> CSSD1306)" where
  "Print_text Font6x8 [] nCursorX nCursorY this = Inr (nCursorX, this)"
| "Print_text Font6x8 (c # pText) nCursorX nCursorY this =
     (if c \<noteq> 0 \<and> nCursorX < 20
      then (case DrawChar Font6x8 c nCursorX nCursorY False False this of
              Inl e \<Rightarrow> Inl e
            | Inr this' \<Rightarrow> Print_text Font6x8 pText (nCursorX + 1) nCursorY this')
      else Inr (nCursorX, this))"

text \<open>The second loop, \<open>while (nCursorX < 20) DrawChar(' ', nCursorX++, nCursorY);\<close>\<close>

function Print_clear :: "CharData list \<Rightarrow> u8 \<Rightarrow> u8 \<Rightarrow> CSSD1306 \<Rightarrow> error + CSSD1306" where
  "Print_clear Font6x8 nCursorX nCursorY this =
     (if nCursorX < 20
      then (case DrawChar Font6x8 0x20 nCursorX nCursorY False False this of
              Inl e \<Rightarrow> Inl e
            | Inr this' \<Rightarrow> Print_clear Font6x8 (nCursorX + 1) nCursorY this')
      else Inr this)"
  by pat_completeness auto
termination
proof (relation "measure (\<lambda>(Font6x8, nCursorX, nCursorY, this). 20 - unat nCursorX)")
  show "wf (measure (\<lambda>(Font6x8 :: CharData list, nCursorX :: u8, nCursorY :: u8, this :: CSSD1306).
              20 - unat nCursorX))"
    by simp
next
  fix Font6x8 :: "CharData list" and nCursorX nCursorY :: u8 and this x2 :: CSSD1306
  assume "nCursorX < 20"
  then have "unat nCursorX < 20" by (simp add: word_less_nat_alt)
  then have "unat (nCursorX + 1) = unat nCursorX + 1" by (simp add: unat_word_ariths)
  with \<open>unat nCursorX < 20\<close>
  show "((Font6x8, nCursorX + 1, nCursorY, x2), (Font6x8, nCursorX, nCursorY, this))
          \<in> measure (\<lambda>(Font6x8, nCursorX, nCursorY, this). 20 - unat nCursorX)"
    by simp
qed

declare Print_clear.simps [simp del]

definition Print ::
  "CharData list \<Rightarrow> u8 list \<Rightarrow> u8 \<Rightarrow> u8 \<Rightarrow> bool \<Rightarrow> bool \<Rightarrow> CSSD1306 \<Rightarrow> error + CSSD1306" where
  "Print Font6x8 pText nCursorX nCursorY bClearLine bImmediate this =
     (case Print_text Font6x8 pText nCursorX nCursorY this of
        Inl e \<Rightarrow> Inl e
      | Inr (x, this1) \<Rightarrow>
          (case (if bClearLine then Print_clear Font6x8 x nCursorY this1 else Inr this1) of
             Inl e \<Rightarrow> Inl e
           | Inr this2 \<Rightarrow> if bImmediate then WriteFramebuffer this2 else Inr this2))"

subsection \<open>Level meters\<close>

text \<open>
  The block "Bar graphs" of \<open>DrawPartLevels\<close>, for the level of one channel: the pair
  \<open>(topVal, bottomVal)\<close>. Above 16 the shift count \<open>8 - (level - 8)\<close> is negative.
\<close>

definition BarGraph :: "u8 \<Rightarrow> error + (u8 \<times> u8)" where
  "BarGraph level =
     (if 8 < level
      then (if 8 - (uint level - 8) < 0 then Inl UndefinedShift
            else Inr (word_of_int (push_bit (nat (8 - (uint level - 8))) 0xFF), 0xFF))
      else Inr (0x00, word_of_int (push_bit (nat (8 - uint level)) 0xFF)))"

text \<open>The two assignments under \<open>if (bDrawPeaks)\<close> that add the bit of the peak.\<close>

definition PeakMeter :: "u8 \<Rightarrow> u8 \<times> u8 \<Rightarrow> error + (u8 \<times> u8)" where
  "PeakMeter peak vals =
     (case vals of (topVal, bottomVal) \<Rightarrow>
        if 8 < peak
        then (if 8 - (uint peak - 8) < 0 then Inl UndefinedShift
              else Inr (word_of_int (uint topVal OR push_bit (nat (8 - (uint peak - 8))) 1), bottomVal))
        else Inr (topVal, word_of_int (uint bottomVal OR push_bit (nat (8 - uint peak)) 1)))"

text \<open>
  The body of the inner loop, \<open>mFramebuffer[256 + i * 14 + j + 3] = topVal;
  mFramebuffer[256 + i * 14 + j + 128 + 3] = bottomVal;\<close>
\<close>

definition DrawPartLevels_column :: "nat \<Rightarrow> u8 \<Rightarrow> u8 \<Rightarrow> nat \<Rightarrow> u8 list \<Rightarrow> error + u8 list" where
  "DrawPartLevels_column i topVal bottomVal j fb =
     (case store (256 + i * 14 + j + 3) topVal fb of
        Inl e \<Rightarrow> Inl e
      | Inr fb' \<Rightarrow> store (256 + i * 14 + j + 128 + 3) bottomVal fb')"

text \<open>
  The body of the outer loop, for the channel \<open>i\<close>. The inner loop stands inside the
  block of \<open>if (bDrawPeaks)\<close>, as in the source.
\<close>

definition DrawPartLevels_part :: "bool \<Rightarrow> nat \<Rightarrow> CSSD1306 \<Rightarrow> error + CSSD1306" where
  "DrawPartLevels_part bDrawPeaks i this =
     (if \<not> i < length (mPartLevels this) then Inl OutOfBounds
      else
        case BarGraph (mPartLevels this ! i) of
          Inl e \<Rightarrow> Inl e
        | Inr bars \<Rightarrow>
            if bDrawPeaks
            then (if \<not> i < length (mPeakLevels this) then Inl OutOfBounds
                  else
                    case PeakMeter (mPeakLevels this ! i) bars of
                      Inl e \<Rightarrow> Inl e
                    | Inr (topVal, bottomVal) \<Rightarrow>
                        (case for_each (DrawPartLevels_column i topVal bottomVal) [0..<12]
                                (mFramebuffer this) of
                           Inl e \<Rightarrow> Inl e
                         | Inr fb \<Rightarrow> Inr (this\<lparr>mFramebuffer := fb\<rparr>)))
            else Inr this)"

definition DrawPartLevels :: "bool \<Rightarrow> CSSD1306 \<Rightarrow> error + CSSD1306" where
  "DrawPartLevels bDrawPeaks this = for_each (DrawPartLevels_part bDrawPeaks) [0..<9] this"

text \<open>
  The pair \<open>(topVal, bottomVal)\<close> that the inner loop writes for the channel \<open>i\<close>
  when the peaks are drawn: the bar bytes with the bit of the peak added.
\<close>

definition PartBytes :: "u8 list \<Rightarrow> u8 list \<Rightarrow> nat \<Rightarrow> error + (u8 \<times> u8)" where
  "PartBytes levels peaks i = and_then (BarGraph (levels ! i)) (PeakMeter (peaks ! i))"

subsection \<open>Clearing\<close>

text \<open>
  \<open>Clear\<close>: \<open>std::fill(mFramebuffer + 1, mFramebuffer + mHeight * 16 + 1, 0);
  WriteFramebuffer();\<close>
\<close>

definition Clear :: "CSSD1306 \<Rightarrow> error + CSSD1306" where
  "Clear this =
     (let n = unat (mHeight this) * 16; fb = mFramebuffer this
      in if n + 1 \<le> length fb
         then WriteFramebuffer (this\<lparr>mFramebuffer := take 1 fb @ replicate n 0 @ drop (n + 1) fb\<rparr>)
         else Inl OutOfBounds)"

subsection \<open>Drawing a list of characters\<close>

text \<open>
  The characters of a list drawn by \<open>DrawChar\<close> (with the arguments \<open>Print\<close> gives it)
  in successive cells of a row, the first one in the cell \<open>nCursorX\<close>. It states what
  \<open>Print\<close> draws.
\<close>

fun draw_chars :: "CharData list \<Rightarrow> u8 list \<Rightarrow> u8 \<Rightarrow> u8 \<Rightarrow> CSSD1306 \<Rightarrow> error + CSSD1306" where
  "draw_chars Font6x8 [] nCursorX nCursorY this = Inr this"
| "draw_chars Font6x8 (c # cs) nCursorX nCursorY this =
     and_then (DrawChar Font6x8 c nCursorX nCursorY False False this)
       (draw_chars Font6x8 cs (nCursorX + 1) nCursorY)"

text \<open>
  The characters of a text that \<open>Print\<close> draws when it starts in the cell \<open>nCursorX\<close>:
  those before the first NUL, and no more than the cells left up to the cell 19.
\<close>

definition printed :: "u8 list \<Rightarrow> u8 \<Rightarrow> u8 list" where
  "printed pText nCursorX = take (20 - unat nCursorX) (takeWhile (\<lambda>c. c \<noteq> 0) pText)"

text \<open>
  The columns of the glyph that \<open>DrawChar\<close> looks up for a character, and the offset
  \<open>rowOffset + columnOffset\<close> of the first byte of a single-width cell.
\<close>

definition Glyph :: "CharData list \<Rightarrow> u8 \<Rightarrow> u16 list" where
  "Glyph Font6x8 chChar =
     FontDouble Font6x8 ! unat ((if chChar = 0xFF then 0x80 else chChar) - 32)"

definition CellOffset :: "nat \<Rightarrow> nat \<Rightarrow> nat" where
  "CellOffset column row = row * 128 * 2 + (column * 6 + 4)"

subsection \<open>The pixel offset, in the words of the specification\<close>

text \<open>
  \<open>Offset(x,y) = ((y & 0xF8) << 4) + x + 1\<close>, on the coordinates already reduced to 7 and
  6 bits.
\<close>

definition Offset :: "nat \<Rightarrow> nat \<Rightarrow> nat" where
  "Offset x y = push_bit 4 (y AND 0xF8) + x + 1"

section \<open>Properties\<close>

subsection \<open>Font conversion\<close>

lemma upt_8: "[0..<8] = [0, 1, 2, 3, 4, 5, 6, 7]"
  by (simp add: upt_rec)

lemma less_8_cases:
  "(b::nat) < 8 \<Longrightarrow> b = 0 \<or> b = 1 \<or> b = 2 \<or> b = 3 \<or> b = 4 \<or> b = 5 \<or> b = 6 \<or> b = 7"
  by arith

lemma and_1_neq_0_iff_bit: "(drop_bit i (x::int) AND 1 \<noteq> 0) = bit x i"
  by (simp add: bit_iff_odd_drop_bit and_one_eq mod_2_eq_odd)

lemma DoubleColumn_bit_even:
  assumes "b < 8"
  shows "bit (DoubleColumn g n) (2 * b) = bit (SingleColumn g n) b"
  using less_8_cases [OF assms]
  unfolding DoubleColumn_def Let_def upt_8 and_1_neq_0_iff_bit
  by (elim disjE) (simp_all add: bit_simps)

lemma DoubleColumn_bit_odd:
  assumes "b < 8"
  shows "bit (DoubleColumn g n) (2 * b + 1) = bit (SingleColumn g n) b"
  using less_8_cases [OF assms]
  unfolding DoubleColumn_def Let_def upt_8 and_1_neq_0_iff_bit
  by (elim disjE) (simp_all add: bit_simps)

lemma Font_nth:
  "n < length Font6x8 \<Longrightarrow> i < 6 \<Longrightarrow> Font F Font6x8 ! n ! i = F (Font6x8 ! n) (of_nat i)"
  by (simp add: Font_def)

text \<open>
  C8. For every glyph \<open>n\<close> of the font, every column \<open>i < 6\<close> and every bit position
  \<open>b < 8\<close>, the bits \<open>2b\<close> and \<open>2b+1\<close> of the column \<open>i\<close> of the double-height glyph
  both equal the bit \<open>b\<close> of the column \<open>i\<close> of the single-height glyph.
\<close>

theorem FontDouble_duplicates_FontSingle:
  assumes "n < length Font6x8" and "i < 6" and "b < 8"
  shows "bit (FontDouble Font6x8 ! n ! i) (2 * b) = bit (FontSingle Font6x8 ! n ! i) b
       \<and> bit (FontDouble Font6x8 ! n ! i) (2 * b + 1) = bit (FontSingle Font6x8 ! n ! i) b"
proof -
  have double: "FontDouble Font6x8 ! n ! i = DoubleColumn (Font6x8 ! n) (of_nat i)"
    using assms by (simp add: FontDouble_def Font_nth)
  have single: "FontSingle Font6x8 ! n ! i = SingleColumn (Font6x8 ! n) (of_nat i)"
    using assms by (simp add: FontSingle_def Font_nth)
  show ?thesis
    unfolding double single
    using DoubleColumn_bit_even [OF \<open>b < 8\<close>] DoubleColumn_bit_odd [OF \<open>b < 8\<close>]
    by blast
qed

text \<open>
  The property at a glyph whose row 1 has the bit 4 set: the column 1 of the single-height
  glyph has the bit 1, the double-height one the bits 2 and 3.
\<close>

theorem FontDouble_duplicates_FontSingle_witness:
  "bit (FontDouble [[0x20, 0x10, 0, 0, 0, 0, 0, 0x01]] ! 0 ! 1) (2 * 1)
     = bit (FontSingle [[0x20, 0x10, 0, 0, 0, 0, 0, 0x01]] ! 0 ! 1) 1
   \<and> bit (FontDouble [[0x20, 0x10, 0, 0, 0, 0, 0, 0x01]] ! 0 ! 1) (2 * 1 + 1)
     = bit (FontSingle [[0x20, 0x10, 0, 0, 0, 0, 0, 0x01]] ! 0 ! 1) 1
   \<and> FontSingle [[0x20, 0x10, 0, 0, 0, 0, 0, 0x01]] ! 0 ! 1 = 2"
proof -
  have single: "FontSingle [[0x20, 0x10, 0, 0, 0, 0, 0, 0x01]] ! 0 ! 1 = 2"
    by (simp add: FontSingle_def Font_def SingleColumn_def upt_8 upt_rec)
  show ?thesis
    using FontDouble_duplicates_FontSingle [of 0 "[[0x20, 0x10, 0, 0, 0, 0, 0, 0x01]]" 1 1] single
    by simp
qed

subsection \<open>Pixels: masks, offset and bit\<close>

lemma div_8_mod_32: "(y::nat) div 8 mod 32 = y mod 256 div 8"
proof -
  have "y mod 256 = y mod (8 * 32)" by simp
  also have "\<dots> = 8 * (y div 8 mod 32) + y mod 8" by (rule mod_mult2_eq)
  finally show ?thesis by simp
qed

lemma push_bit_and_f8: "push_bit 4 ((y::nat) AND 0xF8) = (y mod 256 div 8) * 128"
proof -
  have "(0xF8::nat) = push_bit 3 (mask 5)"
    by (simp add: mask_eq_exp_minus_1 push_bit_eq_mult)
  then have "y AND 0xF8 = push_bit 3 (take_bit 5 (drop_bit 3 y))"
    by (auto simp add: bit_eq_iff bit_simps)
  then have "push_bit 4 (y AND 0xF8) = 128 * ((y div 8) mod 32)"
    by (simp add: push_bit_eq_mult take_bit_eq_mod drop_bit_eq_div)
  then show ?thesis by (simp add: div_8_mod_32)
qed

lemma unat_and_7f: "unat ((nX::u8) AND 0x7f) = unat nX mod 128"
proof -
  have "(0x7f::u8) = mask 7" by (simp add: mask_eq_exp_minus_1)
  then have "nX AND 0x7f = take_bit 7 nX" by (simp add: take_bit_eq_mask)
  then have "unat (nX AND 0x7f) = take_bit 7 (unat nX)" by (simp only: unsigned_take_bit_eq)
  then show ?thesis by (simp add: take_bit_eq_mod)
qed

lemma unat_and_3f: "unat ((nY::u8) AND 0x3f) = unat nY mod 64"
proof -
  have "(0x3f::u8) = mask 6" by (simp add: mask_eq_exp_minus_1)
  then have "nY AND 0x3f = take_bit 6 nY" by (simp add: take_bit_eq_mask)
  then have "unat (nY AND 0x3f) = take_bit 6 (unat nY)" by (simp only: unsigned_take_bit_eq)
  then show ?thesis by (simp add: take_bit_eq_mod)
qed

lemma unat_and_7: "unat ((nY::u8) AND 7) = unat nY mod 8"
proof -
  have "(7::u8) = mask 3" by (simp add: mask_eq_exp_minus_1)
  then have "nY AND 7 = take_bit 3 nY" by (simp add: take_bit_eq_mask)
  then have "unat (nY AND 7) = take_bit 3 (unat nY)" by (simp only: unsigned_take_bit_eq)
  then show ?thesis by (simp add: take_bit_eq_mod)
qed

lemma and_3f_and_7: "((nY::u8) AND 0x3f) AND 7 = nY AND 7"
proof -
  have "(0x3f::u8) = mask 6" and "(7::u8) = mask 3"
    by (simp_all add: mask_eq_exp_minus_1)
  moreover have "((nY AND mask 6) AND mask 3) = nY AND mask 3"
    by (rule bit_word_eqI) (auto simp add: bit_simps)
  ultimately show ?thesis by simp
qed

lemma truncate_and_7f: "(word_of_int (uint (a::u8) AND 0x7f) :: u8) = a AND 0x7f"
  by (rule bit_word_eqI) (simp add: bit_simps)

lemma truncate_and_3f: "(word_of_int (uint (a::u8) AND 0x3f) :: u8) = a AND 0x3f"
  by (rule bit_word_eqI) (simp add: bit_simps)

lemma nat_uint_and_7: "nat (uint (y::u8) AND 7) = unat (y AND 7)"
  by (simp add: unat_eq_nat_uint uint_and)

lemma truncate_or_bit: "(word_of_int (uint (v::u8) OR push_bit n 1) :: u8) = v OR push_bit n 1"
  by (rule bit_word_eqI) (auto simp add: bit_simps)

lemma truncate_and_not_bit:
  "(word_of_int (uint (v::u8) AND NOT (push_bit n 1)) :: u8) = v AND NOT (push_bit n 1)"
  by (rule bit_word_eqI) (auto simp add: bit_simps)

lemma int_offset_eq_Offset:
  "nat (push_bit 4 (uint (y::u8) AND 0xf8) + uint (x::u8) + 1) = Offset (unat x) (unat y)"
proof -
  have "uint y AND 0xf8 = int (unat y AND 0xF8)"
    by (simp add: of_nat_and_eq)
  then have "push_bit 4 (uint y AND 0xf8) + uint x + 1
               = int (push_bit 4 (unat y AND 0xF8) + unat x + 1)"
    by (simp add: push_bit_of_nat)
  then show ?thesis unfolding Offset_def by (metis nat_int)
qed

lemma Offset_masked:
  "Offset (unat ((nX::u8) AND 0x7f)) (unat ((nY::u8) AND 0x3f))
     = (unat nY mod 64 div 8) * 128 + unat nX mod 128 + 1"
  unfolding Offset_def push_bit_and_f8 unat_and_7f unat_and_3f
  by (simp add: mod_mod_cancel)

lemma Offset_masked_le: "Offset (unat ((nX::u8) AND 0x7f)) (unat ((nY::u8) AND 0x3f)) \<le> 1024"
proof -
  have "unat nY mod 64 < 64" by simp
  then have "unat nY mod 64 div 8 \<le> 7" by linarith
  moreover have "unat nX mod 128 < 128" by simp
  ultimately show ?thesis unfolding Offset_masked by linarith
qed

lemma SetPixel_eq:
  "SetPixel nX nY this =
     (if Offset (unat (nX AND 0x7f)) (unat (nY AND 0x3f)) < length (mFramebuffer this)
      then Inr (this\<lparr>mFramebuffer := (mFramebuffer this)
                  [Offset (unat (nX AND 0x7f)) (unat (nY AND 0x3f)) :=
                     mFramebuffer this ! Offset (unat (nX AND 0x7f)) (unat (nY AND 0x3f))
                       OR push_bit (unat ((nY AND 0x3f) AND 7)) 1]\<rparr>)
      else Inl OutOfBounds)"
  unfolding SetPixel_def Let_def truncate_and_7f truncate_and_3f int_offset_eq_Offset
    nat_uint_and_7 truncate_or_bit
  by (rule refl)

lemma ClearPixel_eq:
  "ClearPixel nX nY this =
     (if Offset (unat (nX AND 0x7f)) (unat (nY AND 0x3f)) < length (mFramebuffer this)
      then Inr (this\<lparr>mFramebuffer := (mFramebuffer this)
                  [Offset (unat (nX AND 0x7f)) (unat (nY AND 0x3f)) :=
                     mFramebuffer this ! Offset (unat (nX AND 0x7f)) (unat (nY AND 0x3f))
                       AND NOT (push_bit (unat ((nY AND 0x3f) AND 7)) 1)]\<rparr>)
      else Inl OutOfBounds)"
  unfolding ClearPixel_def Let_def truncate_and_7f truncate_and_3f int_offset_eq_Offset
    nat_uint_and_7 truncate_and_not_bit
  by (rule refl)

text \<open>
  C5. For every \<open>x\<close> and \<open>y\<close>, \<open>SetPixel\<close> masks \<open>x\<close> to 7 bits and \<open>y\<close> to 6 bits
  (that is, reduces them modulo 128 and 64), then ORs \<open>1 << (y & 7)\<close> into the byte at
  \<open>Offset(x,y) = ((y & 0xF8) << 4) + x + 1\<close>, and \<open>ClearPixel\<close> ANDs the complement of
  that bit into the byte at the same offset. The offset is at most 1024; the write is
  outside the array only if the array is shorter than that. Hence \<open>SetPixel(128,0)\<close> and
  \<open>SetPixel(0,64)\<close> both do what \<open>SetPixel(0,0)\<close> does.
\<close>

theorem SetPixel_ClearPixel_masked_offset:
  "SetPixel nX nY this =
     (if Offset (unat (nX AND 0x7f)) (unat (nY AND 0x3f)) < length (mFramebuffer this)
      then Inr (this\<lparr>mFramebuffer := (mFramebuffer this)
                  [Offset (unat (nX AND 0x7f)) (unat (nY AND 0x3f)) :=
                     mFramebuffer this ! Offset (unat (nX AND 0x7f)) (unat (nY AND 0x3f))
                       OR push_bit (unat ((nY AND 0x3f) AND 7)) 1]\<rparr>)
      else Inl OutOfBounds)
   \<and> ClearPixel nX nY this =
     (if Offset (unat (nX AND 0x7f)) (unat (nY AND 0x3f)) < length (mFramebuffer this)
      then Inr (this\<lparr>mFramebuffer := (mFramebuffer this)
                  [Offset (unat (nX AND 0x7f)) (unat (nY AND 0x3f)) :=
                     mFramebuffer this ! Offset (unat (nX AND 0x7f)) (unat (nY AND 0x3f))
                       AND NOT (push_bit (unat ((nY AND 0x3f) AND 7)) 1)]\<rparr>)
      else Inl OutOfBounds)
   \<and> unat (nX AND 0x7f) = unat nX mod 128
   \<and> unat (nY AND 0x3f) = unat nY mod 64
   \<and> unat ((nY AND 0x3f) AND 7) = unat nY mod 8
   \<and> Offset (unat (nX AND 0x7f)) (unat (nY AND 0x3f))
       = (unat nY mod 64 div 8) * 128 + unat nX mod 128 + 1
   \<and> Offset (unat (nX AND 0x7f)) (unat (nY AND 0x3f)) \<le> 1024
   \<and> SetPixel 128 0 this = SetPixel 0 0 this
   \<and> SetPixel 0 64 this = SetPixel 0 0 this"
proof -
  have wrap_x: "SetPixel 128 0 this = SetPixel 0 0 this"
    by (simp add: SetPixel_eq)
  have wrap_y: "SetPixel 0 64 this = SetPixel 0 0 this"
    by (simp add: SetPixel_eq)
  have bit_no: "unat ((nY AND 0x3f) AND 7) = unat nY mod 8"
    by (simp only: and_3f_and_7 unat_and_7)
  show ?thesis
    using SetPixel_eq [of nX nY this] ClearPixel_eq [of nX nY this]
      unat_and_7f [of nX] unat_and_3f [of nY] bit_no
      Offset_masked [of nX nY] Offset_masked_le [of nX nY] wrap_x wrap_y
    by blast
qed

subsection \<open>Pixels: setting twice, setting then clearing\<close>

lemma or_bit_twice: "((v::u8) OR m) OR m = v OR m"
  by (simp add: or.assoc)

lemma or_bit_and_not: "((v::u8) OR m) AND NOT m = v AND NOT m"
  by (rule bit_word_eqI) (auto simp add: bit_simps)

lemma and_not_bit_clear: "\<not> bit (v::u8) k \<Longrightarrow> v AND NOT (2 ^ k) = v"
  by (rule bit_word_eqI) (auto simp add: bit_simps)

lemma SetPixel_SetPixel: "and_then (SetPixel nX nY this) (SetPixel nX nY) = SetPixel nX nY this"
  by (simp add: and_then_def SetPixel_eq or_bit_twice)

lemma SetPixel_ClearPixel:
  "and_then (SetPixel nX nY this) (ClearPixel nX nY) = ClearPixel nX nY this"
  by (simp add: and_then_def SetPixel_eq ClearPixel_eq or_bit_and_not)

lemma and_not_bit_same_iff: "((v::u8) AND NOT (2 ^ k) = v) = (\<not> bit v k)"
proof
  assume eq: "v AND NOT (2 ^ k) = v"
  show "\<not> bit v k"
  proof
    assume b: "bit v k"
    then have "bit (v AND NOT (2 ^ k)) k" by (simp add: eq)
    then show False by (simp add: bit_simps)
  qed
next
  assume "\<not> bit v k"
  then show "v AND NOT (2 ^ k) = v" by (rule and_not_bit_clear)
qed

lemma same_and_not_bit_iff: "((v::u8) = v AND NOT (2 ^ k)) = (\<not> bit v k)"
  using and_not_bit_same_iff [of v k] by auto

lemma or_bit_set: "k < 8 \<Longrightarrow> bit ((v::u8) OR 2 ^ k) k"
  by (simp add: bit_simps)

lemma and_not_bit_unset: "\<not> bit ((v::u8) AND NOT (2 ^ k)) k"
  by (auto simp add: bit_simps)

lemma bit_no_less_8: "unat (((nY::u8) AND 0x3f) AND 7) < 8"
  by (simp add: and_3f_and_7 unat_and_7)

lemma framebuffer_update_same_iff:
  "(this\<lparr>mFramebuffer := fb\<rparr> = this) = (fb = mFramebuffer this)"
proof
  assume "this\<lparr>mFramebuffer := fb\<rparr> = this"
  then have "mFramebuffer (this\<lparr>mFramebuffer := fb\<rparr>) = mFramebuffer this" by simp
  then show "fb = mFramebuffer this" by simp
next
  assume "fb = mFramebuffer this"
  then show "this\<lparr>mFramebuffer := fb\<rparr> = this" by simp
qed

lemma SetPixel_sets_bit:
  assumes "Offset (unat (nX AND 0x7f)) (unat (nY AND 0x3f)) < length (mFramebuffer this)"
  shows "\<exists>this1. SetPixel nX nY this = Inr this1
           \<and> bit (mFramebuffer this1 ! Offset (unat (nX AND 0x7f)) (unat (nY AND 0x3f)))
                  (unat ((nY AND 0x3f) AND 7))"
  using assms bit_no_less_8 [of nY] by (simp add: SetPixel_eq or_bit_set)

lemma SetPixel_ClearPixel_clears_bit:
  assumes "Offset (unat (nX AND 0x7f)) (unat (nY AND 0x3f)) < length (mFramebuffer this)"
  shows "\<exists>this2. and_then (SetPixel nX nY this) (ClearPixel nX nY) = Inr this2
           \<and> \<not> bit (mFramebuffer this2 ! Offset (unat (nX AND 0x7f)) (unat (nY AND 0x3f)))
                    (unat ((nY AND 0x3f) AND 7))
           \<and> (this2 = this) =
               (\<not> bit (mFramebuffer this ! Offset (unat (nX AND 0x7f)) (unat (nY AND 0x3f)))
                       (unat ((nY AND 0x3f) AND 7)))"
  using assms
  by (simp add: SetPixel_ClearPixel ClearPixel_eq and_not_bit_unset framebuffer_update_same_iff
        list_update_same_conv and_not_bit_same_iff same_and_not_bit_iff)

text \<open>
  C2, as amended. \<open>SetPixel(x,y)\<close> twice gives the framebuffer that \<open>SetPixel(x,y)\<close>
  once gives. \<open>SetPixel(x,y)\<close> then \<open>ClearPixel(x,y)\<close> gives what \<open>ClearPixel(x,y)\<close>
  alone gives. Where the framebuffer holds the addressed byte, \<open>SetPixel\<close> returns with
  the addressed bit set, and \<open>SetPixel\<close> then \<open>ClearPixel\<close> returns with the addressed
  bit clear: the result is the state before the \<open>SetPixel\<close> if the addressed bit was clear
  beforehand, and it is not if the bit was set.
\<close>

theorem SetPixel_idempotent_ClearPixel_undoes:
  "and_then (SetPixel nX nY this) (SetPixel nX nY) = SetPixel nX nY this
   \<and> and_then (SetPixel nX nY this) (ClearPixel nX nY) = ClearPixel nX nY this
   \<and> (Offset (unat (nX AND 0x7f)) (unat (nY AND 0x3f)) < length (mFramebuffer this)
      \<longrightarrow> (\<exists>this1. SetPixel nX nY this = Inr this1
              \<and> bit (mFramebuffer this1 ! Offset (unat (nX AND 0x7f)) (unat (nY AND 0x3f)))
                     (unat ((nY AND 0x3f) AND 7)))
          \<and> (\<exists>this2. and_then (SetPixel nX nY this) (ClearPixel nX nY) = Inr this2
              \<and> \<not> bit (mFramebuffer this2 ! Offset (unat (nX AND 0x7f)) (unat (nY AND 0x3f)))
                       (unat ((nY AND 0x3f) AND 7))
              \<and> (this2 = this) =
                  (\<not> bit (mFramebuffer this ! Offset (unat (nX AND 0x7f)) (unat (nY AND 0x3f)))
                          (unat ((nY AND 0x3f) AND 7)))))"
proof (intro conjI impI)
  show "and_then (SetPixel nX nY this) (SetPixel nX nY) = SetPixel nX nY this"
    by (rule SetPixel_SetPixel)
  show "and_then (SetPixel nX nY this) (ClearPixel nX nY) = ClearPixel nX nY this"
    by (rule SetPixel_ClearPixel)
next
  assume "Offset (unat (nX AND 0x7f)) (unat (nY AND 0x3f)) < length (mFramebuffer this)"
  then show "\<exists>this1. SetPixel nX nY this = Inr this1
              \<and> bit (mFramebuffer this1 ! Offset (unat (nX AND 0x7f)) (unat (nY AND 0x3f)))
                     (unat ((nY AND 0x3f) AND 7))"
    by (rule SetPixel_sets_bit)
next
  assume "Offset (unat (nX AND 0x7f)) (unat (nY AND 0x3f)) < length (mFramebuffer this)"
  then show "\<exists>this2. and_then (SetPixel nX nY this) (ClearPixel nX nY) = Inr this2
              \<and> \<not> bit (mFramebuffer this2 ! Offset (unat (nX AND 0x7f)) (unat (nY AND 0x3f)))
                       (unat ((nY AND 0x3f) AND 7))
              \<and> (this2 = this) =
                  (\<not> bit (mFramebuffer this ! Offset (unat (nX AND 0x7f)) (unat (nY AND 0x3f)))
                          (unat ((nY AND 0x3f) AND 7)))"
    by (rule SetPixel_ClearPixel_clears_bit)
qed

text \<open>
  The property at the pixel (3,10) of a blank 128x64 framebuffer, whose byte is at the
  offset 132 and whose bit is the bit 2.
\<close>

theorem SetPixel_idempotent_ClearPixel_undoes_witness:
  "(\<exists>this1. SetPixel 3 10 \<lparr> mPartLevels = [], mPeakLevels = [], mI2CMaster = None,
                 mAddress = 0x3C, mHeight = 64, mFramebuffer = 0x40 # replicate 1024 0 \<rparr>
              = Inr this1 \<and> bit (mFramebuffer this1 ! 132) (2::nat))
   \<and> and_then (SetPixel 3 10 \<lparr> mPartLevels = [], mPeakLevels = [], mI2CMaster = None,
                mAddress = 0x3C, mHeight = 64, mFramebuffer = 0x40 # replicate 1024 0 \<rparr>)
            (ClearPixel 3 10)
     = Inr \<lparr> mPartLevels = [], mPeakLevels = [], mI2CMaster = None,
             mAddress = 0x3C, mHeight = 64, mFramebuffer = 0x40 # replicate 1024 0 \<rparr>
   \<and> Offset 3 10 = 132"
  (is "(\<exists>this1. SetPixel 3 10 ?s = Inr this1 \<and> _) \<and> _ \<and> _")
proof -
  have offset: "Offset 3 10 = 132"
    by (simp add: Offset_def)
  have masked: "Offset (unat ((3::u8) AND 0x7f)) (unat ((10::u8) AND 0x3f)) = 132"
    "unat (((10::u8) AND 0x3f) AND 7) = 2"
    by (simp_all add: offset)
  have in_range: "Offset (unat ((3::u8) AND 0x7f)) (unat ((10::u8) AND 0x3f))
                    < length (mFramebuffer ?s)"
    by (simp add: offset)
  have dark: "\<not> bit (mFramebuffer ?s ! Offset (unat ((3::u8) AND 0x7f)) (unat ((10::u8) AND 0x3f)))
                   (unat (((10::u8) AND 0x3f) AND 7))"
    by (simp add: offset)
  note both = SetPixel_idempotent_ClearPixel_undoes
    [of 3 10 ?s, THEN conjunct2, THEN conjunct2, THEN mp, OF in_range]
  from both [THEN conjunct1]
  have lit: "\<exists>this1. SetPixel 3 10 ?s = Inr this1 \<and> bit (mFramebuffer this1 ! 132) (2::nat)"
    unfolding masked .
  from both [THEN conjunct2] dark
  have restored: "and_then (SetPixel 3 10 ?s) (ClearPixel 3 10) = Inr ?s"
    by blast
  show ?thesis
    by (intro conjI) (rule lit restored offset)+
qed

text \<open>
  C2 as stated fails when the addressed bit was set beforehand: in a framebuffer whose
  pixel (0,0) is lit, \<open>SetPixel(0,0)\<close> then \<open>ClearPixel(0,0)\<close> leaves the pixel dark.
\<close>

theorem SetPixel_ClearPixel_not_restored_counterexample:
  "and_then (SetPixel 0 0 \<lparr> mPartLevels = [], mPeakLevels = [], mI2CMaster = None,
                mAddress = 0x3C, mHeight = 64, mFramebuffer = 0x40 # 1 # replicate 1023 0 \<rparr>)
            (ClearPixel 0 0)
     = Inr \<lparr> mPartLevels = [], mPeakLevels = [], mI2CMaster = None,
             mAddress = 0x3C, mHeight = 64, mFramebuffer = 0x40 # 0 # replicate 1023 0 \<rparr>
   \<and> and_then (SetPixel 0 0 \<lparr> mPartLevels = [], mPeakLevels = [], mI2CMaster = None,
                mAddress = 0x3C, mHeight = 64, mFramebuffer = 0x40 # 1 # replicate 1023 0 \<rparr>)
            (ClearPixel 0 0)
     \<noteq> Inr \<lparr> mPartLevels = [], mPeakLevels = [], mI2CMaster = None,
             mAddress = 0x3C, mHeight = 64, mFramebuffer = 0x40 # 1 # replicate 1023 0 \<rparr>"
  by (simp add: and_then_def SetPixel_eq ClearPixel_eq Offset_def)

subsection \<open>Initialization\<close>

lemma Initialize_loop:
  "for_each (\<lambda>byte. I2C_Write address [0x80, byte] 2) bytes bus
     = Inr (bus @ map (\<lambda>byte. (address, [0x80, byte])) bytes)"
  by (induction bytes arbitrary: bus) (simp_all add: I2C_Write_def)

lemma Initialize_null: "mI2CMaster this = None \<Longrightarrow> Initialize this = Inl AssertionFailed"
  by (simp add: Initialize_def)

lemma Initialize_bad_height:
  "mI2CMaster this = Some bus \<Longrightarrow> mHeight this \<noteq> 32 \<Longrightarrow> mHeight this \<noteq> 64 \<Longrightarrow>
   Initialize this = Inr (False, this)"
  by (simp add: Initialize_def)

lemma Initialize_ok:
  "mI2CMaster this = Some bus \<Longrightarrow> mHeight this = 32 \<or> mHeight this = 64 \<Longrightarrow>
   Initialize this = Inr (True, this\<lparr>mI2CMaster :=
       Some (bus @ map (\<lambda>byte. (mAddress this, [0x80, byte])) InitSequence)\<rparr>)"
  by (auto simp add: Initialize_def Initialize_loop)

text \<open>
  C3, as amended. \<open>Initialize\<close> first asserts that the bus handle is present: with a
  null handle the assertion fails and nothing is returned. With the handle present it
  returns failure whenever the stored height is neither 32 nor 64, and when the height is
  32 or 64 it returns success after one two-byte write \<open>{0x80, byte}\<close> to the device,
  in order, for every byte of the initialization sequence.
\<close>

theorem Initialize_result:
  "(mI2CMaster this = None \<longrightarrow> Initialize this = Inl AssertionFailed)
   \<and> (mI2CMaster this = Some bus \<and> mHeight this \<noteq> 32 \<and> mHeight this \<noteq> 64
        \<longrightarrow> Initialize this = Inr (False, this))
   \<and> (mI2CMaster this = Some bus \<and> (mHeight this = 32 \<or> mHeight this = 64)
        \<longrightarrow> Initialize this = Inr (True, this\<lparr>mI2CMaster :=
              Some (bus @ map (\<lambda>byte. (mAddress this, [0x80, byte])) InitSequence)\<rparr>))"
  using Initialize_null [of this] Initialize_bad_height [of this bus] Initialize_ok [of this bus]
  by blast

text \<open>
  The three cases: a null handle, the height 48, and the height 32 with the thirty writes
  on the bus.
\<close>

theorem Initialize_result_witness:
  "Initialize \<lparr> mPartLevels = [], mPeakLevels = [], mI2CMaster = None,
                 mAddress = 0x3C, mHeight = 48, mFramebuffer = [0x40] \<rparr> = Inl AssertionFailed
   \<and> Initialize \<lparr> mPartLevels = [], mPeakLevels = [], mI2CMaster = Some [],
                 mAddress = 0x3C, mHeight = 48, mFramebuffer = [0x40] \<rparr>
       = Inr (False, \<lparr> mPartLevels = [], mPeakLevels = [], mI2CMaster = Some [],
                 mAddress = 0x3C, mHeight = 48, mFramebuffer = [0x40] \<rparr>)
   \<and> Initialize \<lparr> mPartLevels = [], mPeakLevels = [], mI2CMaster = Some [],
                 mAddress = 0x3C, mHeight = 32, mFramebuffer = [0x40] \<rparr>
       = Inr (True, \<lparr> mPartLevels = [], mPeakLevels = [], mI2CMaster = Some
                 [(0x3C, [0x80, 0xAE]), (0x3C, [0x80, 0x81]), (0x3C, [0x80, 0x7F]),
                  (0x3C, [0x80, 0xA6]), (0x3C, [0x80, 0x20]), (0x3C, [0x80, 0x00]),
                  (0x3C, [0x80, 0x21]), (0x3C, [0x80, 0x00]), (0x3C, [0x80, 0x7F]),
                  (0x3C, [0x80, 0x22]), (0x3C, [0x80, 0x00]), (0x3C, [0x80, 0x03]),
                  (0x3C, [0x80, 0xA1]), (0x3C, [0x80, 0xA8]), (0x3C, [0x80, 0x1F]),
                  (0x3C, [0x80, 0xC8]), (0x3C, [0x80, 0xD3]), (0x3C, [0x80, 0x00]),
                  (0x3C, [0x80, 0xDA]), (0x3C, [0x80, 0x02]), (0x3C, [0x80, 0xD5]),
                  (0x3C, [0x80, 0x80]), (0x3C, [0x80, 0xD9]), (0x3C, [0x80, 0x22]),
                  (0x3C, [0x80, 0xDB]), (0x3C, [0x80, 0x20]), (0x3C, [0x80, 0x8D]),
                  (0x3C, [0x80, 0x14]), (0x3C, [0x80, 0xA4]), (0x3C, [0x80, 0xAF])],
                 mAddress = 0x3C, mHeight = 32, mFramebuffer = [0x40] \<rparr>)"
  using Initialize_result [of "\<lparr> mPartLevels = [], mPeakLevels = [], mI2CMaster = None,
                 mAddress = 0x3C, mHeight = 48, mFramebuffer = [0x40] \<rparr>" "[]"]
    Initialize_result [of "\<lparr> mPartLevels = [], mPeakLevels = [], mI2CMaster = Some [],
                 mAddress = 0x3C, mHeight = 48, mFramebuffer = [0x40] \<rparr>" "[]"]
    Initialize_result [of "\<lparr> mPartLevels = [], mPeakLevels = [], mI2CMaster = Some [],
                 mAddress = 0x3C, mHeight = 32, mFramebuffer = [0x40] \<rparr>" "[]"]
  by (simp add: InitSequence_def)

text \<open>
  C3 as stated fails for a null handle: with the height 32 nothing is returned, so no
  failure is.
\<close>

theorem Initialize_null_handle_counterexample:
  "Initialize \<lparr> mPartLevels = [], mPeakLevels = [], mI2CMaster = None,
                 mAddress = 0x3C, mHeight = 32, mFramebuffer = 0x40 # replicate 1024 0 \<rparr>
     = Inl AssertionFailed
   \<and> Initialize \<lparr> mPartLevels = [], mPeakLevels = [], mI2CMaster = None,
                 mAddress = 0x3C, mHeight = 32, mFramebuffer = 0x40 # replicate 1024 0 \<rparr>
     \<noteq> Inr (False, \<lparr> mPartLevels = [], mPeakLevels = [], mI2CMaster = None,
                 mAddress = 0x3C, mHeight = 32, mFramebuffer = 0x40 # replicate 1024 0 \<rparr>)"
  by (simp add: Initialize_def)

subsection \<open>Level meters: the bar bytes\<close>

lemma le_15_cases:
  assumes "(L::u8) \<le> 15"
  shows "L \<in> {0, 1, 2, 3, 4, 5, 6, 7, 8, 9, 10, 11, 12, 13, 14, 15}"
proof -
  from assms have "unat L \<le> 15" by (simp add: word_le_nat_alt)
  then have "unat L = 0 \<or> unat L = 1 \<or> unat L = 2 \<or> unat L = 3 \<or> unat L = 4 \<or> unat L = 5
      \<or> unat L = 6 \<or> unat L = 7 \<or> unat L = 8 \<or> unat L = 9 \<or> unat L = 10 \<or> unat L = 11
      \<or> unat L = 12 \<or> unat L = 13 \<or> unat L = 14 \<or> unat L = 15"
    by arith
  then have "unat L \<in> {0, 1, 2, 3, 4, 5, 6, 7, 8, 9, 10, 11, 12, 13, 14, 15}" by blast
  then have "word_of_nat (unat L) \<in> (word_of_nat ` {0, 1, 2, 3, 4, 5, 6, 7, 8, 9, 10, 11, 12, 13, 14, 15} :: u8 set)"
    by (rule imageI)
  then show ?thesis by simp
qed

text \<open>
  C6. For every level \<open>L\<close> from 0 to 15, the top-page and the bottom-page byte computed
  for the level \<open>L + 1\<close> have every bit that the bytes computed for \<open>L\<close> have.
\<close>

theorem BarGraph_monotone:
  assumes "L \<le> 15"
  shows "\<exists>topVal bottomVal topVal' bottomVal'.
           BarGraph L = Inr (topVal, bottomVal) \<and> BarGraph (L + 1) = Inr (topVal', bottomVal')
           \<and> (\<forall>k. bit topVal k \<longrightarrow> bit topVal' k) \<and> (\<forall>k. bit bottomVal k \<longrightarrow> bit bottomVal' k)"
proof -
  have "\<exists>topVal bottomVal topVal' bottomVal'.
           BarGraph L = Inr (topVal, bottomVal) \<and> BarGraph (L + 1) = Inr (topVal', bottomVal')
           \<and> topVal AND topVal' = topVal \<and> bottomVal AND bottomVal' = bottomVal"
    using le_15_cases [OF assms] by (auto simp add: BarGraph_def)
  then show ?thesis by (metis bit_and_iff)
qed

text \<open>From the level 8 to the level 9 the bottom page stays full and the top page starts.\<close>

theorem BarGraph_monotone_witness:
  "(8::u8) \<le> 15
   \<and> (\<exists>topVal bottomVal topVal' bottomVal'.
           BarGraph 8 = Inr (topVal, bottomVal) \<and> BarGraph (8 + 1) = Inr (topVal', bottomVal')
           \<and> (\<forall>k. bit topVal k \<longrightarrow> bit topVal' k) \<and> (\<forall>k. bit bottomVal k \<longrightarrow> bit bottomVal' k))
   \<and> BarGraph 8 = Inr (0x00, 0xFF) \<and> BarGraph 9 = Inr (0x80, 0xFF)"
proof -
  have level: "(8::u8) \<le> 15" by simp
  have vals: "BarGraph 8 = Inr (0x00, 0xFF) \<and> BarGraph 9 = Inr (0x80, 0xFF)"
    by (simp add: BarGraph_def)
  show ?thesis
    using level BarGraph_monotone [OF level] vals by blast
qed

subsection \<open>Level meters: what is written\<close>

lemma DrawPartLevels_column_in_range:
  "256 + i * 14 + j + 128 + 3 < length fb \<Longrightarrow>
   DrawPartLevels_column i t b j fb
     = Inr (fb[256 + i * 14 + j + 3 := t, 256 + i * 14 + j + 128 + 3 := b])"
  by (simp add: DrawPartLevels_column_def store_def)

lemma fill_columns:
  assumes "\<forall>j\<in>set js. j < 128 \<and> 256 + i * 14 + j + 128 + 3 < length fb"
  shows "\<exists>fb'. for_each (DrawPartLevels_column i t b) js fb = Inr fb' \<and> length fb' = length fb
           \<and> (\<forall>j\<in>set js. fb' ! (256 + i * 14 + j + 3) = t \<and> fb' ! (256 + i * 14 + j + 128 + 3) = b)
           \<and> (\<forall>k. (\<forall>j\<in>set js. k \<noteq> 256 + i * 14 + j + 3 \<and> k \<noteq> 256 + i * 14 + j + 128 + 3)
                  \<longrightarrow> fb' ! k = fb ! k)"
  using assms
proof (induction js arbitrary: fb)
  case Nil
  then show ?case by simp
next
  case (Cons j js)
  let ?fb1 = "fb[256 + i * 14 + j + 3 := t, 256 + i * 14 + j + 128 + 3 := b]"
  have step: "DrawPartLevels_column i t b j fb = Inr ?fb1"
    using Cons.prems by (simp add: DrawPartLevels_column_in_range)
  have "\<forall>j\<in>set js. j < 128 \<and> 256 + i * 14 + j + 128 + 3 < length ?fb1"
    using Cons.prems by simp
  from Cons.IH [OF this] obtain fb' where
    run: "for_each (DrawPartLevels_column i t b) js ?fb1 = Inr fb'"
    and len: "length fb' = length ?fb1"
    and inside: "\<forall>j\<in>set js. fb' ! (256 + i * 14 + j + 3) = t \<and> fb' ! (256 + i * 14 + j + 128 + 3) = b"
    and outside: "\<forall>k. (\<forall>j\<in>set js. k \<noteq> 256 + i * 14 + j + 3 \<and> k \<noteq> 256 + i * 14 + j + 128 + 3)
                  \<longrightarrow> fb' ! k = ?fb1 ! k"
    by blast
  have jb: "j < 128" "256 + i * 14 + j + 128 + 3 < length fb" using Cons.prems by simp_all
  have head_top: "fb' ! (256 + i * 14 + j + 3) = t"
  proof (cases "j \<in> set js")
    case True then show ?thesis using inside by blast
  next
    case False
    have "\<forall>j'\<in>set js. 256 + i * 14 + j + 3 \<noteq> 256 + i * 14 + j' + 3
            \<and> 256 + i * 14 + j + 3 \<noteq> 256 + i * 14 + j' + 128 + 3"
      using False jb by auto
    then have "fb' ! (256 + i * 14 + j + 3) = ?fb1 ! (256 + i * 14 + j + 3)"
      using outside by blast
    then show ?thesis using jb by simp
  qed
  have head_bottom: "fb' ! (256 + i * 14 + j + 128 + 3) = b"
  proof (cases "j \<in> set js")
    case True then show ?thesis using inside by blast
  next
    case False
    have "\<forall>j'\<in>set js. 256 + i * 14 + j + 128 + 3 \<noteq> 256 + i * 14 + j' + 3
            \<and> 256 + i * 14 + j + 128 + 3 \<noteq> 256 + i * 14 + j' + 128 + 3"
      using False Cons.prems by auto
    then have "fb' ! (256 + i * 14 + j + 128 + 3) = ?fb1 ! (256 + i * 14 + j + 128 + 3)"
      using outside by blast
    then show ?thesis using jb by simp
  qed
  have frame: "\<forall>k. (\<forall>j'\<in>set (j # js). k \<noteq> 256 + i * 14 + j' + 3 \<and> k \<noteq> 256 + i * 14 + j' + 128 + 3)
                  \<longrightarrow> fb' ! k = fb ! k"
    using outside by simp
  show ?case
    using step run len inside head_top head_bottom frame by simp
qed


lemma BarGraph_total: "level \<le> 16 \<Longrightarrow> \<exists>t b. BarGraph level = Inr (t, b)"
  by (simp add: BarGraph_def word_le_def)

lemma PeakMeter_total: "peak \<le> 16 \<Longrightarrow> \<exists>t b. PeakMeter peak vals = Inr (t, b)"
  by (cases vals) (simp add: PeakMeter_def word_le_def)

lemma PartBytes_total:
  "levels ! i \<le> 16 \<Longrightarrow> peaks ! i \<le> 16 \<Longrightarrow> \<exists>t b. PartBytes levels peaks i = Inr (t, b)"
  using BarGraph_total [of "levels ! i"] PeakMeter_total [of "peaks ! i"]
  by (fastforce simp add: PartBytes_def and_then_def)

lemma DrawPartLevels_part_without_peaks:
  "i < length (mPartLevels this) \<Longrightarrow> mPartLevels this ! i \<le> 16 \<Longrightarrow>
   DrawPartLevels_part False i this = Inr this"
  using BarGraph_total [of "mPartLevels this ! i"]
  by (auto simp add: DrawPartLevels_part_def)

lemma DrawPartLevels_part_with_peaks:
  assumes "i < length (mPartLevels this)" and "i < length (mPeakLevels this)"
    and "PartBytes (mPartLevels this) (mPeakLevels this) i = Inr (t, b)"
    and "256 + i * 14 + 11 + 128 + 3 < length (mFramebuffer this)"
  shows "\<exists>fb'. DrawPartLevels_part True i this = Inr (this\<lparr>mFramebuffer := fb'\<rparr>)
           \<and> length fb' = length (mFramebuffer this)
           \<and> (\<forall>j<12. fb' ! (256 + i * 14 + j + 3) = t \<and> fb' ! (256 + i * 14 + j + 128 + 3) = b)
           \<and> (\<forall>k. (\<forall>j<12. k \<noteq> 256 + i * 14 + j + 3 \<and> k \<noteq> 256 + i * 14 + j + 128 + 3)
                  \<longrightarrow> fb' ! k = mFramebuffer this ! k)"
proof -
  have "\<forall>j\<in>set [0..<12]. j < 128 \<and> 256 + i * 14 + j + 128 + 3 < length (mFramebuffer this)"
    using assms(4) by auto
  from fill_columns [OF this, of t b] obtain fb' where
    run: "for_each (DrawPartLevels_column i t b) [0..<12] (mFramebuffer this) = Inr fb'"
    and len: "length fb' = length (mFramebuffer this)"
    and inside: "\<forall>j\<in>set [0..<12]. fb' ! (256 + i * 14 + j + 3) = t \<and> fb' ! (256 + i * 14 + j + 128 + 3) = b"
    and outside: "\<forall>k. (\<forall>j\<in>set [0..<12]. k \<noteq> 256 + i * 14 + j + 3 \<and> k \<noteq> 256 + i * 14 + j + 128 + 3)
                  \<longrightarrow> fb' ! k = mFramebuffer this ! k"
    by blast
  obtain bars where bars: "BarGraph (mPartLevels this ! i) = Inr bars"
    and peak: "PeakMeter (mPeakLevels this ! i) bars = Inr (t, b)"
    using assms(3) by (auto simp add: PartBytes_def and_then_def split: sum.splits)
  have "DrawPartLevels_part True i this = Inr (this\<lparr>mFramebuffer := fb'\<rparr>)"
    using assms(1,2) bars peak run by (simp add: DrawPartLevels_part_def)
  moreover have "\<forall>j<12. fb' ! (256 + i * 14 + j + 3) = t \<and> fb' ! (256 + i * 14 + j + 128 + 3) = b"
    using inside by simp
  moreover have "\<forall>k. (\<forall>j<12. k \<noteq> 256 + i * 14 + j + 3 \<and> k \<noteq> 256 + i * 14 + j + 128 + 3)
                  \<longrightarrow> fb' ! k = mFramebuffer this ! k"
    using outside by simp
  ultimately show ?thesis using len by blast
qed

lemma for_each_without_peaks:
  "\<forall>i\<in>set is. i < length (mPartLevels this) \<and> mPartLevels this ! i \<le> 16 \<Longrightarrow>
   for_each (DrawPartLevels_part False) is this = Inr this"
  by (induction "is") (simp_all add: DrawPartLevels_part_without_peaks)

lemma blocks_apart:
  "i < 9 \<Longrightarrow> i' < 9 \<Longrightarrow> j < 12 \<Longrightarrow> j' < 12 \<Longrightarrow> i \<noteq> i' \<Longrightarrow>
   256 + i * 14 + j + 3 \<noteq> 256 + i' * 14 + j' + 3
   \<and> 256 + i * 14 + j + 3 \<noteq> 256 + i' * 14 + j' + 128 + 3
   \<and> 256 + i * 14 + j + 128 + 3 \<noteq> 256 + i' * 14 + j' + 3
   \<and> 256 + i * 14 + j + 128 + 3 \<noteq> 256 + i' * 14 + j' + 128 + 3"
  for i i' j j' :: nat
  by arith

lemma for_each_with_peaks:
  assumes "\<forall>i\<in>set is. i < 9"
    and "9 \<le> length (mPartLevels this)" and "9 \<le> length (mPeakLevels this)"
    and "\<forall>i<9. mPartLevels this ! i \<le> 16 \<and> mPeakLevels this ! i \<le> 16"
    and "511 \<le> length (mFramebuffer this)"
  shows "\<exists>fb'. for_each (DrawPartLevels_part True) is this = Inr (this\<lparr>mFramebuffer := fb'\<rparr>)
           \<and> length fb' = length (mFramebuffer this)
           \<and> (\<forall>i\<in>set is. \<forall>j<12. \<exists>t b.
                 PartBytes (mPartLevels this) (mPeakLevels this) i = Inr (t, b)
                 \<and> fb' ! (256 + i * 14 + j + 3) = t \<and> fb' ! (256 + i * 14 + j + 128 + 3) = b)
           \<and> (\<forall>k. (\<forall>i\<in>set is. \<forall>j<12. k \<noteq> 256 + i * 14 + j + 3 \<and> k \<noteq> 256 + i * 14 + j + 128 + 3)
                  \<longrightarrow> fb' ! k = mFramebuffer this ! k)"
  using assms
proof (induction "is" arbitrary: this)
  case Nil
  have "this\<lparr>mFramebuffer := mFramebuffer this\<rparr> = this" by simp
  then show ?case by (metis for_each.simps(1) empty_iff list.set(1))
next
  case (Cons i "is")
  have i9: "i < 9" using Cons.prems(1) by simp
  obtain t b where bytes: "PartBytes (mPartLevels this) (mPeakLevels this) i = Inr (t, b)"
    using PartBytes_total [of "mPartLevels this" i "mPeakLevels this"] Cons.prems(4) i9 by blast
  have "256 + i * 14 + 11 + 128 + 3 < length (mFramebuffer this)"
    using i9 Cons.prems(5) by simp
  from DrawPartLevels_part_with_peaks [OF _ _ bytes this] i9 Cons.prems(2,3)
  obtain fb1 where
    step: "DrawPartLevels_part True i this = Inr (this\<lparr>mFramebuffer := fb1\<rparr>)"
    and len1: "length fb1 = length (mFramebuffer this)"
    and in1: "\<forall>j<12. fb1 ! (256 + i * 14 + j + 3) = t \<and> fb1 ! (256 + i * 14 + j + 128 + 3) = b"
    and out1: "\<forall>k. (\<forall>j<12. k \<noteq> 256 + i * 14 + j + 3 \<and> k \<noteq> 256 + i * 14 + j + 128 + 3)
                  \<longrightarrow> fb1 ! k = mFramebuffer this ! k"
    by auto
  let ?this1 = "this\<lparr>mFramebuffer := fb1\<rparr>"
  have "\<exists>fb'. for_each (DrawPartLevels_part True) is ?this1 = Inr (?this1\<lparr>mFramebuffer := fb'\<rparr>)
           \<and> length fb' = length (mFramebuffer ?this1)
           \<and> (\<forall>i\<in>set is. \<forall>j<12. \<exists>t b.
                 PartBytes (mPartLevels ?this1) (mPeakLevels ?this1) i = Inr (t, b)
                 \<and> fb' ! (256 + i * 14 + j + 3) = t \<and> fb' ! (256 + i * 14 + j + 128 + 3) = b)
           \<and> (\<forall>k. (\<forall>i\<in>set is. \<forall>j<12. k \<noteq> 256 + i * 14 + j + 3 \<and> k \<noteq> 256 + i * 14 + j + 128 + 3)
                  \<longrightarrow> fb' ! k = mFramebuffer ?this1 ! k)"
    using Cons.prems len1 by (intro Cons.IH) simp_all
  then obtain fb' where
    run: "for_each (DrawPartLevels_part True) is ?this1 = Inr (this\<lparr>mFramebuffer := fb'\<rparr>)"
    and len: "length fb' = length fb1"
    and inside: "\<forall>i\<in>set is. \<forall>j<12. \<exists>t b.
                 PartBytes (mPartLevels this) (mPeakLevels this) i = Inr (t, b)
                 \<and> fb' ! (256 + i * 14 + j + 3) = t \<and> fb' ! (256 + i * 14 + j + 128 + 3) = b"
    and outside: "\<forall>k. (\<forall>i\<in>set is. \<forall>j<12. k \<noteq> 256 + i * 14 + j + 3 \<and> k \<noteq> 256 + i * 14 + j + 128 + 3)
                  \<longrightarrow> fb' ! k = fb1 ! k"
    by auto
  have head: "\<forall>j<12. \<exists>t b. PartBytes (mPartLevels this) (mPeakLevels this) i = Inr (t, b)
                 \<and> fb' ! (256 + i * 14 + j + 3) = t \<and> fb' ! (256 + i * 14 + j + 128 + 3) = b"
  proof (cases "i \<in> set is")
    case True then show ?thesis using inside by blast
  next
    case False
    have apart: "\<forall>j<12. \<forall>i'\<in>set is. \<forall>j'<12.
        256 + i * 14 + j + 3 \<noteq> 256 + i' * 14 + j' + 3
        \<and> 256 + i * 14 + j + 3 \<noteq> 256 + i' * 14 + j' + 128 + 3
        \<and> 256 + i * 14 + j + 128 + 3 \<noteq> 256 + i' * 14 + j' + 3
        \<and> 256 + i * 14 + j + 128 + 3 \<noteq> 256 + i' * 14 + j' + 128 + 3"
    proof (intro allI impI ballI)
      fix j i' j' :: nat
      assume "j < 12" "i' \<in> set is" "j' < 12"
      moreover from \<open>i' \<in> set is\<close> have "i' < 9" "i \<noteq> i'" using Cons.prems(1) False by auto
      ultimately show "256 + i * 14 + j + 3 \<noteq> 256 + i' * 14 + j' + 3
        \<and> 256 + i * 14 + j + 3 \<noteq> 256 + i' * 14 + j' + 128 + 3
        \<and> 256 + i * 14 + j + 128 + 3 \<noteq> 256 + i' * 14 + j' + 3
        \<and> 256 + i * 14 + j + 128 + 3 \<noteq> 256 + i' * 14 + j' + 128 + 3"
        using i9 by (intro blocks_apart)
    qed
    have "\<forall>j<12. fb' ! (256 + i * 14 + j + 3) = fb1 ! (256 + i * 14 + j + 3)
              \<and> fb' ! (256 + i * 14 + j + 128 + 3) = fb1 ! (256 + i * 14 + j + 128 + 3)"
      using apart outside by blast
    then show ?thesis using in1 bytes by simp
  qed
  have frame: "\<forall>k. (\<forall>i'\<in>set (i # is). \<forall>j<12. k \<noteq> 256 + i' * 14 + j + 3 \<and> k \<noteq> 256 + i' * 14 + j + 128 + 3)
                  \<longrightarrow> fb' ! k = mFramebuffer this ! k"
    using outside out1 by simp
  have "for_each (DrawPartLevels_part True) (i # is) this = Inr (this\<lparr>mFramebuffer := fb'\<rparr>)"
    using step run by simp
  moreover have "length fb' = length (mFramebuffer this)" using len len1 by simp
  moreover have "\<forall>i'\<in>set (i # is). \<forall>j<12. \<exists>t b.
                 PartBytes (mPartLevels this) (mPeakLevels this) i' = Inr (t, b)
                 \<and> fb' ! (256 + i' * 14 + j + 3) = t \<and> fb' ! (256 + i' * 14 + j + 128 + 3) = b"
    using head inside by simp
  ultimately show ?case using frame by blast
qed

text \<open>
  C1 (the code departs from it). Without peaks, \<open>DrawPartLevels\<close> computes the bar
  bytes of every channel and writes none of them: the loop over the 12 columns stands
  inside \<open>if (bDrawPeaks)\<close>. For levels up to 16 the call returns the object unchanged.
\<close>

theorem DrawPartLevels_without_peaks_writes_nothing:
  assumes "9 \<le> length (mPartLevels this)" and "\<forall>i<9. mPartLevels this ! i \<le> 16"
  shows "DrawPartLevels False this = Inr this"
  unfolding DrawPartLevels_def
  using assms by (intro for_each_without_peaks) auto

text \<open>
  Every channel at the level 16, whose bar bytes are \<open>0xFF\<close> and \<open>0xFF\<close>, on a blank
  128x64 framebuffer: the byte 259, the first column of the channel 0, stays 0.
\<close>

theorem DrawPartLevels_without_peaks_writes_nothing_witness:
  "DrawPartLevels False
     \<lparr> mPartLevels = replicate 9 16, mPeakLevels = replicate 9 0, mI2CMaster = Some [],
       mAddress = 0x3C, mHeight = 64, mFramebuffer = 0x40 # replicate 1024 0 \<rparr>
     = Inr \<lparr> mPartLevels = replicate 9 16, mPeakLevels = replicate 9 0, mI2CMaster = Some [],
             mAddress = 0x3C, mHeight = 64, mFramebuffer = 0x40 # replicate 1024 0 \<rparr>
   \<and> BarGraph 16 = Inr (0xFF, 0xFF)
   \<and> (0x40 # replicate 1024 (0::u8)) ! (256 + 0 * 14 + 0 + 3) = 0"
proof -
  have bars: "BarGraph 16 = Inr (0xFF, 0xFF)"
    by (simp add: BarGraph_def)
  show ?thesis
    using DrawPartLevels_without_peaks_writes_nothing
      [of "\<lparr> mPartLevels = replicate 9 16, mPeakLevels = replicate 9 0, mI2CMaster = Some [],
             mAddress = 0x3C, mHeight = 64, mFramebuffer = 0x40 # replicate 1024 0 \<rparr>"]
      bars
    by simp
qed

text \<open>
  With peaks the bytes are written: every channel's pair goes into the 12 columns of its
  block, on both pages, and no other byte changes.
\<close>

lemma DrawPartLevels_with_peaks:
  assumes "9 \<le> length (mPartLevels this)" and "9 \<le> length (mPeakLevels this)"
    and "\<forall>i<9. mPartLevels this ! i \<le> 16 \<and> mPeakLevels this ! i \<le> 16"
    and "511 \<le> length (mFramebuffer this)"
  shows "\<exists>fb'. DrawPartLevels True this = Inr (this\<lparr>mFramebuffer := fb'\<rparr>)
           \<and> length fb' = length (mFramebuffer this)
           \<and> (\<forall>i<9. \<forall>j<12. \<exists>t b.
                 PartBytes (mPartLevels this) (mPeakLevels this) i = Inr (t, b)
                 \<and> fb' ! (256 + i * 14 + j + 3) = t \<and> fb' ! (256 + i * 14 + j + 128 + 3) = b)
           \<and> (\<forall>k. (\<forall>i<9. \<forall>j<12. k \<noteq> 256 + i * 14 + j + 3 \<and> k \<noteq> 256 + i * 14 + j + 128 + 3)
                  \<longrightarrow> fb' ! k = mFramebuffer this ! k)"
proof -
  have "\<forall>i\<in>set [0..<9]. i < 9" by simp
  from for_each_with_peaks [OF this assms]
  show ?thesis unfolding DrawPartLevels_def by (simp add: Ball_def)
qed

lemma BarGraph_level_0: "BarGraph 0 = Inr (0x00, 0x00)"
  by (simp add: BarGraph_def)

lemma or_high_bit_truncated: "8 \<le> n \<Longrightarrow> (word_of_int (uint (v::u8) OR 2 ^ n) :: u8) = v"
  by (rule bit_word_eqI) (auto simp add: bit_simps)

lemma or_256_truncated: "(word_of_int (uint (v::u8) OR 256) :: u8) = v"
  using or_high_bit_truncated [of 8 v] by simp

lemma PeakMeter_peak_0: "PeakMeter 0 (topVal, bottomVal) = Inr (topVal, bottomVal)"
  by (simp add: PeakMeter_def or_256_truncated)

text \<open>
  C10. In 8-bit arithmetic \<open>0xFF << 8\<close> and \<open>1 << 8\<close> are 0: the level 0 gives the bar
  bytes 0 and 0, and the peak 0 adds no bit to the bytes it is given. So, when the peaks
  are drawn, a channel whose peak is 0 gets its bar bytes alone in the 12 columns of its
  block, a channel whose level is 0 gets the bit of its peak alone, and a channel whose
  level and peak are both 0 gets zero bytes: no pixel of the block is lit.
\<close>

theorem zero_level_zero_peak_light_nothing:
  "(word_of_int (push_bit 8 0xFF) :: u8) = 0
   \<and> (word_of_int (push_bit 8 1) :: u8) = 0
   \<and> BarGraph 0 = Inr (0x00, 0x00)
   \<and> PeakMeter 0 (topVal, bottomVal) = Inr (topVal, bottomVal)
   \<and> (9 \<le> length (mPartLevels this) \<and> 9 \<le> length (mPeakLevels this)
      \<and> (\<forall>i<9. mPartLevels this ! i \<le> 16 \<and> mPeakLevels this ! i \<le> 16)
      \<and> 511 \<le> length (mFramebuffer this) \<and> c < 9
      \<longrightarrow> (\<exists>fb'. DrawPartLevels True this = Inr (this\<lparr>mFramebuffer := fb'\<rparr>)
            \<and> (mPeakLevels this ! c = 0
                 \<longrightarrow> (\<forall>j<12. BarGraph (mPartLevels this ! c)
                         = Inr (fb' ! (256 + c * 14 + j + 3), fb' ! (256 + c * 14 + j + 128 + 3))))
            \<and> (mPartLevels this ! c = 0
                 \<longrightarrow> (\<forall>j<12. PeakMeter (mPeakLevels this ! c) (0x00, 0x00)
                         = Inr (fb' ! (256 + c * 14 + j + 3), fb' ! (256 + c * 14 + j + 128 + 3))))
            \<and> (mPartLevels this ! c = 0 \<and> mPeakLevels this ! c = 0
                 \<longrightarrow> (\<forall>j<12. fb' ! (256 + c * 14 + j + 3) = 0
                             \<and> fb' ! (256 + c * 14 + j + 128 + 3) = 0))))"
proof -
  have truncated: "(word_of_int (push_bit 8 0xFF) :: u8) = 0 \<and> (word_of_int (push_bit 8 1) :: u8) = 0"
    by simp
  have channel: "\<exists>fb'. DrawPartLevels True this = Inr (this\<lparr>mFramebuffer := fb'\<rparr>)
            \<and> (mPeakLevels this ! c = 0
                 \<longrightarrow> (\<forall>j<12. BarGraph (mPartLevels this ! c)
                         = Inr (fb' ! (256 + c * 14 + j + 3), fb' ! (256 + c * 14 + j + 128 + 3))))
            \<and> (mPartLevels this ! c = 0
                 \<longrightarrow> (\<forall>j<12. PeakMeter (mPeakLevels this ! c) (0x00, 0x00)
                         = Inr (fb' ! (256 + c * 14 + j + 3), fb' ! (256 + c * 14 + j + 128 + 3))))
            \<and> (mPartLevels this ! c = 0 \<and> mPeakLevels this ! c = 0
                 \<longrightarrow> (\<forall>j<12. fb' ! (256 + c * 14 + j + 3) = 0
                             \<and> fb' ! (256 + c * 14 + j + 128 + 3) = 0))"
    if pre: "9 \<le> length (mPartLevels this)" "9 \<le> length (mPeakLevels this)"
      "\<forall>i<9. mPartLevels this ! i \<le> 16 \<and> mPeakLevels this ! i \<le> 16"
      "511 \<le> length (mFramebuffer this)" and c: "c < 9"
  proof -
    from DrawPartLevels_with_peaks [OF pre] obtain fb' where
      run: "DrawPartLevels True this = Inr (this\<lparr>mFramebuffer := fb'\<rparr>)"
      and inside: "\<forall>i<9. \<forall>j<12. \<exists>t b.
                 PartBytes (mPartLevels this) (mPeakLevels this) i = Inr (t, b)
                 \<and> fb' ! (256 + i * 14 + j + 3) = t \<and> fb' ! (256 + i * 14 + j + 128 + 3) = b"
      by blast
    obtain t b where bytes: "PartBytes (mPartLevels this) (mPeakLevels this) c = Inr (t, b)"
      using PartBytes_total pre(3) c by blast
    have block: "\<forall>j<12. fb' ! (256 + c * 14 + j + 3) = t \<and> fb' ! (256 + c * 14 + j + 128 + 3) = b"
      using inside c bytes by fastforce
    obtain bars where bars: "BarGraph (mPartLevels this ! c) = Inr bars"
      using BarGraph_total pre(3) c by blast
    have peak_0: "BarGraph (mPartLevels this ! c) = Inr (t, b)" if "mPeakLevels this ! c = 0"
      using bytes bars that
      by (cases bars) (simp add: PartBytes_def and_then_def PeakMeter_peak_0)
    have level_0: "PeakMeter (mPeakLevels this ! c) (0x00, 0x00) = Inr (t, b)"
      if "mPartLevels this ! c = 0"
      using bytes that by (simp add: PartBytes_def and_then_def BarGraph_level_0)
    have both_0: "t = 0 \<and> b = 0" if "mPartLevels this ! c = 0" "mPeakLevels this ! c = 0"
      using peak_0 that by (simp add: BarGraph_level_0)
    from run block peak_0 level_0 both_0 show ?thesis by auto
  qed
  show ?thesis
    using truncated BarGraph_level_0 PeakMeter_peak_0 [of topVal bottomVal] channel by blast
qed

text \<open>
  All nine channels at level 0 and peak 0, on a framebuffer whose drawable bytes are all
  \<open>0xFF\<close>: after the call both pages of the block of the channel 8 are dark.
\<close>

theorem zero_level_zero_peak_light_nothing_witness:
  "\<exists>fb'. DrawPartLevels True
            \<lparr> mPartLevels = replicate 9 0, mPeakLevels = replicate 9 0, mI2CMaster = Some [],
              mAddress = 0x3C, mHeight = 64, mFramebuffer = 0x40 # replicate 1024 0xFF \<rparr>
          = Inr (\<lparr> mPartLevels = replicate 9 0, mPeakLevels = replicate 9 0, mI2CMaster = Some [],
                   mAddress = 0x3C, mHeight = 64, mFramebuffer = 0x40 # replicate 1024 0xFF \<rparr>
                 \<lparr>mFramebuffer := fb'\<rparr>)
        \<and> (\<forall>j<12. fb' ! (256 + 8 * 14 + j + 3) = 0 \<and> fb' ! (256 + 8 * 14 + j + 128 + 3) = 0)"
  (is "\<exists>fb'. DrawPartLevels True ?s = Inr (?s\<lparr>mFramebuffer := fb'\<rparr>) \<and> _")
proof -
  have pre: "9 \<le> length (mPartLevels ?s) \<and> 9 \<le> length (mPeakLevels ?s)
      \<and> (\<forall>i<9. mPartLevels ?s ! i \<le> 16 \<and> mPeakLevels ?s ! i \<le> 16)
      \<and> 511 \<le> length (mFramebuffer ?s) \<and> (8::nat) < 9"
    by simp
  have zero: "mPartLevels ?s ! 8 = 0 \<and> mPeakLevels ?s ! 8 = 0"
    by simp
  show ?thesis
    using zero_level_zero_peak_light_nothing [of _ _ ?s 8] pre zero by blast
qed

subsection \<open>Glyph lookup\<close>

lemma length_FontDouble: "length (FontDouble Font6x8) = length Font6x8"
  by (simp add: FontDouble_def Font_def)

lemma length_FontDouble_nth:
  "n < length Font6x8 \<Longrightarrow> length (FontDouble Font6x8 ! n) = 6"
  by (simp add: FontDouble_def Font_def)

lemma upt_6: "[0..<6] = [0, 1, 2, 3, 4, 5]"
  by (simp add: upt_rec)

lemma DrawChar_glyph_outside:
  assumes "length Font6x8 \<le> unat ((if chChar = 0xFF then 0x80 else chChar) - 32)"
  shows "DrawChar Font6x8 chChar nCursorX nCursorY bInverted bDoubleWidth this = Inl OutOfBounds"
  using assms
  by (simp add: DrawChar_def DrawChar_column_def upt_6 length_FontDouble Let_def)

text \<open>
  C4 (the code departs from it). Only the character \<open>'\xFF'\<close> is replaced before the
  lookup. The control character \<open>'\x1F'\<close> is looked up at the index
  \<open>static_cast<u8>(0x1F - 0x20) = 255\<close>, which is outside every font table of fewer
  than 256 glyphs: the access is undefined behaviour.
\<close>

theorem DrawChar_control_character_outside_font:
  assumes "length Font6x8 < 256"
  shows "DrawChar Font6x8 0x1F nCursorX nCursorY bInverted bDoubleWidth this = Inl OutOfBounds"
proof -
  have "unat ((0x1F::u8) - 32) = 255"
    by (simp add: unsigned_minus_1_eq_mask mask_eq_exp_minus_1)
  with assms have "length Font6x8 \<le> unat ((if (0x1F::u8) = 0xFF then 0x80 else 0x1F :: u8) - 32)"
    by simp
  then show ?thesis by (rule DrawChar_glyph_outside)
qed

text \<open>The same for a table of 97 glyphs, the characters from \<open>' '\<close> to \<open>'\x80'\<close>.\<close>

theorem DrawChar_control_character_outside_font_witness:
  "DrawChar (replicate 97 (replicate 8 0)) 0x1F 0 0 False False
     \<lparr> mPartLevels = replicate 9 0, mPeakLevels = replicate 9 0, mI2CMaster = Some [],
       mAddress = 0x3C, mHeight = 64, mFramebuffer = 0x40 # replicate 1024 0 \<rparr>
   = Inl OutOfBounds"
  using DrawChar_control_character_outside_font [of "replicate 97 (replicate 8 0)" 0 0 False False
     "\<lparr> mPartLevels = replicate 9 0, mPeakLevels = replicate 9 0, mI2CMaster = Some [],
       mAddress = 0x3C, mHeight = 64, mFramebuffer = 0x40 # replicate 1024 0 \<rparr>"]
  by simp

subsection \<open>The control byte\<close>

lemma for_each_preserves:
  assumes "\<And>x s s'. body x s = Inr s' \<Longrightarrow> P s \<Longrightarrow> P s'"
    and "for_each body xs s = Inr s'" and "P s"
  shows "P s'"
  using assms(2,3)
proof (induction xs arbitrary: s)
  case Nil
  then show ?case by simp
next
  case (Cons x xs)
  then show ?case by (auto split: sum.splits intro: assms(1))
qed

lemma DrawChar_column_keeps_byte_0:
  assumes "DrawChar_column font ch rowOffset columnOffset bInverted bDoubleWidth i fb = Inr fb'"
    and "0 < columnOffset"
  shows "fb' ! 0 = fb ! 0"
  using assms
  by (auto simp add: DrawChar_column_def Let_def store_def split: if_splits sum.splits)

lemma DrawChar_keeps_byte_0:
  assumes "DrawChar Font6x8 chChar nCursorX nCursorY bInverted bDoubleWidth this = Inr this'"
  shows "mFramebuffer this' ! 0 = mFramebuffer this ! 0"
proof -
  let ?col = "unat nCursorX * (if bDoubleWidth then 12 else 6) + 4"
  from assms obtain fb' where
    run: "for_each (DrawChar_column (FontDouble Font6x8) (if chChar = 0xFF then 0x80 else chChar)
             (unat nCursorY * 128 * 2) ?col bInverted bDoubleWidth) [0..<6] (mFramebuffer this) = Inr fb'"
    and this': "this' = this\<lparr>mFramebuffer := fb'\<rparr>"
    by (auto simp add: DrawChar_def Let_def split: sum.splits)
  have "fb' ! 0 = mFramebuffer this ! 0"
    by (rule for_each_preserves [where P = "\<lambda>fb. fb ! 0 = mFramebuffer this ! 0", OF _ run])
       (auto dest: DrawChar_column_keeps_byte_0)
  then show ?thesis by (simp add: this')
qed


lemma Print_text_keeps_byte_0:
  "Print_text Font6x8 pText nCursorX nCursorY this = Inr (x, this') \<Longrightarrow>
   mFramebuffer this' ! 0 = mFramebuffer this ! 0"
proof (induction pText arbitrary: nCursorX this)
  case Nil
  then show ?case by simp
next
  case (Cons c pText)
  show ?case
  proof (cases "c \<noteq> 0 \<and> nCursorX < 20")
    case True
    with Cons.prems obtain this1 where
      first: "DrawChar Font6x8 c nCursorX nCursorY False False this = Inr this1"
      and rest: "Print_text Font6x8 pText (nCursorX + 1) nCursorY this1 = Inr (x, this')"
      by (auto split: sum.splits)
    from Cons.IH [OF rest] DrawChar_keeps_byte_0 [OF first] show ?thesis by simp
  next
    case False
    with Cons.prems show ?thesis by auto
  qed
qed

lemma Print_clear_keeps_byte_0:
  "Print_clear Font6x8 nCursorX nCursorY this = Inr this' \<Longrightarrow>
   mFramebuffer this' ! 0 = mFramebuffer this ! 0"
proof (induction Font6x8 nCursorX nCursorY this rule: Print_clear.induct)
  case (1 Font6x8 nCursorX nCursorY this)
  show ?case
  proof (cases "nCursorX < 20")
    case True
    with "1.prems" obtain this1 where
      first: "DrawChar Font6x8 0x20 nCursorX nCursorY False False this = Inr this1"
      and rest: "Print_clear Font6x8 (nCursorX + 1) nCursorY this1 = Inr this'"
      by (subst (asm) Print_clear.simps) (auto split: sum.splits)
    from "1.IH" [OF True first rest] DrawChar_keeps_byte_0 [OF first] show ?thesis by simp
  next
    case False
    with "1.prems" show ?thesis by (subst (asm) Print_clear.simps) simp
  qed
qed

lemma WriteFramebuffer_keeps_framebuffer:
  "WriteFramebuffer this = Inr this' \<Longrightarrow> mFramebuffer this' = mFramebuffer this"
  by (auto simp add: WriteFramebuffer_def split: option.splits sum.splits)

lemma Print_keeps_byte_0:
  assumes "Print Font6x8 pText nCursorX nCursorY bClearLine bImmediate this = Inr this'"
  shows "mFramebuffer this' ! 0 = mFramebuffer this ! 0"
proof -
  from assms obtain x this1 this2 where
    drawn: "Print_text Font6x8 pText nCursorX nCursorY this = Inr (x, this1)"
    and clear: "(if bClearLine then Print_clear Font6x8 x nCursorY this1 else Inr this1) = Inr this2"
    and send: "(if bImmediate then WriteFramebuffer this2 else Inr this2) = Inr this'"
    by (auto simp add: Print_def split: sum.splits prod.splits)
  have "mFramebuffer this2 ! 0 = mFramebuffer this1 ! 0"
    using clear Print_clear_keeps_byte_0 by (auto split: if_splits)
  moreover have "mFramebuffer this' = mFramebuffer this2"
    using send WriteFramebuffer_keeps_framebuffer by (auto split: if_splits)
  ultimately show ?thesis using Print_text_keeps_byte_0 [OF drawn] by simp
qed

lemma DrawPartLevels_column_keeps_byte_0:
  "DrawPartLevels_column i t b j fb = Inr fb' \<Longrightarrow> fb' ! 0 = fb ! 0"
  by (auto simp add: DrawPartLevels_column_def store_def split: if_splits sum.splits)

lemma DrawPartLevels_part_keeps_byte_0:
  assumes "DrawPartLevels_part bDrawPeaks i this = Inr this'"
  shows "mFramebuffer this' ! 0 = mFramebuffer this ! 0"
proof (cases bDrawPeaks)
  case False
  with assms have "this' = this"
    by (auto simp add: DrawPartLevels_part_def split: if_splits sum.splits)
  then show ?thesis by simp
next
  case True
  with assms obtain t b fb' where
    run: "for_each (DrawPartLevels_column i t b) [0..<12] (mFramebuffer this) = Inr fb'"
    and this': "this' = this\<lparr>mFramebuffer := fb'\<rparr>"
    by (auto simp add: DrawPartLevels_part_def split: if_splits sum.splits prod.splits)
  have "fb' ! 0 = mFramebuffer this ! 0"
    by (rule for_each_preserves [where P = "\<lambda>fb. fb ! 0 = mFramebuffer this ! 0", OF _ run])
       (auto dest: DrawPartLevels_column_keeps_byte_0)
  then show ?thesis by (simp add: this')
qed

lemma DrawPartLevels_keeps_byte_0:
  assumes "DrawPartLevels bDrawPeaks this = Inr this'"
  shows "mFramebuffer this' ! 0 = mFramebuffer this ! 0"
  by (rule for_each_preserves
        [where P = "\<lambda>s. mFramebuffer s ! 0 = mFramebuffer this ! 0",
         OF _ assms [unfolded DrawPartLevels_def]])
     (auto dest: DrawPartLevels_part_keeps_byte_0)

lemma Clear_keeps_byte_0:
  assumes "Clear this = Inr this'"
  shows "mFramebuffer this' ! 0 = mFramebuffer this ! 0"
proof -
  let ?n = "unat (mHeight this) * 16"
  let ?fb = "mFramebuffer this"
  from assms have len: "?n + 1 \<le> length ?fb"
    and send: "WriteFramebuffer (this\<lparr>mFramebuffer := take 1 ?fb @ replicate ?n 0 @ drop (?n + 1) ?fb\<rparr>) = Inr this'"
    by (auto simp add: Clear_def Let_def split: if_splits)
  from WriteFramebuffer_keeps_framebuffer [OF send]
  have "mFramebuffer this' = take 1 ?fb @ replicate ?n 0 @ drop (?n + 1) ?fb" by simp
  moreover from len have "?fb \<noteq> []" by auto
  ultimately show ?thesis by (cases ?fb) simp_all
qed

lemma Offset_positive: "0 < Offset x y"
  by (simp add: Offset_def)

lemma SetPixel_keeps_byte_0:
  "SetPixel nX nY this = Inr this' \<Longrightarrow> mFramebuffer this' ! 0 = mFramebuffer this ! 0"
  using Offset_positive [of "unat (nX AND 0x7f)" "unat (nY AND 0x3f)"]
  by (auto simp add: SetPixel_eq split: if_splits)

lemma ClearPixel_keeps_byte_0:
  "ClearPixel nX nY this = Inr this' \<Longrightarrow> mFramebuffer this' ! 0 = mFramebuffer this ! 0"
  using Offset_positive [of "unat (nX AND 0x7f)" "unat (nY AND 0x3f)"]
  by (auto simp add: ClearPixel_eq split: if_splits)

lemma CSSD1306_new_byte_0:
  "CSSD1306_new n levels peaks pI2CMaster nAddress nHeight = Inr this \<Longrightarrow>
   mFramebuffer this ! 0 = 0x40"
  by (auto simp add: CSSD1306_new_def split: if_splits)

text \<open>
  C9. After the construction the byte 0 of the framebuffer is the data-mode marker
  \<open>0x40\<close>, and whenever \<open>SetPixel\<close>, \<open>ClearPixel\<close>, \<open>DrawChar\<close>, \<open>Print\<close>,
  \<open>DrawPartLevels\<close> or \<open>Clear\<close> returns, the byte 0 is what it was before the call.
\<close>

theorem control_byte_invariant:
  "(CSSD1306_new n levels peaks pI2CMaster nAddress nHeight = Inr this
      \<longrightarrow> mFramebuffer this ! 0 = 0x40)
   \<and> (SetPixel nX nY this = Inr this' \<longrightarrow> mFramebuffer this' ! 0 = mFramebuffer this ! 0)
   \<and> (ClearPixel nX nY this = Inr this' \<longrightarrow> mFramebuffer this' ! 0 = mFramebuffer this ! 0)
   \<and> (DrawChar Font6x8 chChar nCursorX nCursorY bInverted bDoubleWidth this = Inr this'
      \<longrightarrow> mFramebuffer this' ! 0 = mFramebuffer this ! 0)
   \<and> (Print Font6x8 pText nCursorX nCursorY bClearLine bImmediate this = Inr this'
      \<longrightarrow> mFramebuffer this' ! 0 = mFramebuffer this ! 0)
   \<and> (DrawPartLevels bDrawPeaks this = Inr this'
      \<longrightarrow> mFramebuffer this' ! 0 = mFramebuffer this ! 0)
   \<and> (Clear this = Inr this' \<longrightarrow> mFramebuffer this' ! 0 = mFramebuffer this ! 0)"
  by (intro conjI impI)
     (erule CSSD1306_new_byte_0 SetPixel_keeps_byte_0 ClearPixel_keeps_byte_0
        DrawChar_keeps_byte_0 Print_keeps_byte_0 DrawPartLevels_keeps_byte_0 Clear_keeps_byte_0)+

subsection \<open>The cell of a character\<close>

lemma DrawChar_column_single:
  assumes "unat (ch - 32) < length font" and "i < length (font ! unat (ch - 32))"
    and "rowOffset + columnOffset + i + 128 < length fb"
  shows "DrawChar_column font ch rowOffset columnOffset False False i fb
           = Inr (fb[rowOffset + columnOffset + i := LowByte (font ! unat (ch - 32) ! i),
                     rowOffset + columnOffset + i + 128 := HighByte (font ! unat (ch - 32) ! i)])"
  using assms by (simp add: DrawChar_column_def store_def Let_def)

lemma draw_columns:
  assumes "unat (ch - 32) < length font"
    and "\<forall>i\<in>set js. i < length (font ! unat (ch - 32)) \<and> i < 128 \<and> base + i + 128 < length fb"
    and "base = rowOffset + columnOffset"
  shows "\<exists>fb'. for_each (DrawChar_column font ch rowOffset columnOffset False False) js fb = Inr fb'
           \<and> length fb' = length fb
           \<and> (\<forall>i\<in>set js. fb' ! (base + i) = LowByte (font ! unat (ch - 32) ! i)
                          \<and> fb' ! (base + i + 128) = HighByte (font ! unat (ch - 32) ! i))
           \<and> (\<forall>k. (\<forall>i\<in>set js. k \<noteq> base + i \<and> k \<noteq> base + i + 128) \<longrightarrow> fb' ! k = fb ! k)"
  using assms(2)
proof (induction js arbitrary: fb)
  case Nil
  then show ?case by simp
next
  case (Cons j js)
  let ?g = "font ! unat (ch - 32)"
  let ?fb1 = "fb[base + j := LowByte (?g ! j), base + j + 128 := HighByte (?g ! j)]"
  have jb: "j < length ?g" "j < 128" "base + j + 128 < length fb"
    using Cons.prems by simp_all
  have step: "DrawChar_column font ch rowOffset columnOffset False False j fb = Inr ?fb1"
    using DrawChar_column_single [OF assms(1) jb(1), of rowOffset columnOffset fb] jb(3)
    by (simp add: assms(3))
  have "\<forall>i\<in>set js. i < length ?g \<and> i < 128 \<and> base + i + 128 < length ?fb1"
    using Cons.prems by simp
  from Cons.IH [OF this] obtain fb' where
    run: "for_each (DrawChar_column font ch rowOffset columnOffset False False) js ?fb1 = Inr fb'"
    and len: "length fb' = length ?fb1"
    and inside: "\<forall>i\<in>set js. fb' ! (base + i) = LowByte (?g ! i) \<and> fb' ! (base + i + 128) = HighByte (?g ! i)"
    and outside: "\<forall>k. (\<forall>i\<in>set js. k \<noteq> base + i \<and> k \<noteq> base + i + 128) \<longrightarrow> fb' ! k = ?fb1 ! k"
    by blast
  have head: "fb' ! (base + j) = LowByte (?g ! j) \<and> fb' ! (base + j + 128) = HighByte (?g ! j)"
  proof (cases "j \<in> set js")
    case True then show ?thesis using inside by blast
  next
    case False
    have "\<forall>i\<in>set js. base + j \<noteq> base + i \<and> base + j \<noteq> base + i + 128
            \<and> base + j + 128 \<noteq> base + i \<and> base + j + 128 \<noteq> base + i + 128"
      using False jb Cons.prems by auto
    then have "fb' ! (base + j) = ?fb1 ! (base + j) \<and> fb' ! (base + j + 128) = ?fb1 ! (base + j + 128)"
      using outside by blast
    then show ?thesis using jb by simp
  qed
  have frame: "\<forall>k. (\<forall>i\<in>set (j # js). k \<noteq> base + i \<and> k \<noteq> base + i + 128) \<longrightarrow> fb' ! k = fb ! k"
    using outside by simp
  show ?case
    using step run len inside head frame by simp
qed

lemma DrawChar_cell:
  assumes "unat ((if chChar = 0xFF then 0x80 else chChar) - 32) < length Font6x8"
    and "CellOffset (unat nCursorX) (unat nCursorY) + 5 + 128 < length (mFramebuffer this)"
  shows "\<exists>fb'. DrawChar Font6x8 chChar nCursorX nCursorY False False this
                 = Inr (this\<lparr>mFramebuffer := fb'\<rparr>)
           \<and> length fb' = length (mFramebuffer this)
           \<and> (\<forall>i<6. fb' ! (CellOffset (unat nCursorX) (unat nCursorY) + i)
                        = LowByte (Glyph Font6x8 chChar ! i)
                   \<and> fb' ! (CellOffset (unat nCursorX) (unat nCursorY) + i + 128)
                        = HighByte (Glyph Font6x8 chChar ! i))
           \<and> (\<forall>k. (\<forall>i<6. k \<noteq> CellOffset (unat nCursorX) (unat nCursorY) + i
                         \<and> k \<noteq> CellOffset (unat nCursorX) (unat nCursorY) + i + 128)
                  \<longrightarrow> fb' ! k = mFramebuffer this ! k)"
proof -
  let ?ch = "if chChar = 0xFF then 0x80 else chChar"
  let ?base = "CellOffset (unat nCursorX) (unat nCursorY)"
  have idx: "unat (?ch - 32) < length (FontDouble Font6x8)"
    using assms(1) by (simp add: length_FontDouble)
  have cols: "\<forall>i\<in>set [0..<6]. i < length (FontDouble Font6x8 ! unat (?ch - 32)) \<and> i < 128
                \<and> ?base + i + 128 < length (mFramebuffer this)"
    using assms by (auto simp add: length_FontDouble_nth)
  have base: "?base = unat nCursorY * 128 * 2 + (unat nCursorX * 6 + 4)"
    by (simp add: CellOffset_def)
  from draw_columns [OF idx cols base] obtain fb' where
    run: "for_each (DrawChar_column (FontDouble Font6x8) ?ch (unat nCursorY * 128 * 2)
             (unat nCursorX * 6 + 4) False False) [0..<6] (mFramebuffer this) = Inr fb'"
    and len: "length fb' = length (mFramebuffer this)"
    and inside: "\<forall>i\<in>set [0..<6]. fb' ! (?base + i) = LowByte (FontDouble Font6x8 ! unat (?ch - 32) ! i)
                          \<and> fb' ! (?base + i + 128) = HighByte (FontDouble Font6x8 ! unat (?ch - 32) ! i)"
    and outside: "\<forall>k. (\<forall>i\<in>set [0..<6]. k \<noteq> ?base + i \<and> k \<noteq> ?base + i + 128)
                    \<longrightarrow> fb' ! k = mFramebuffer this ! k"
    by blast
  have "DrawChar Font6x8 chChar nCursorX nCursorY False False this = Inr (this\<lparr>mFramebuffer := fb'\<rparr>)"
    using run by (simp add: DrawChar_def)
  moreover have "\<forall>i<6. fb' ! (?base + i) = LowByte (Glyph Font6x8 chChar ! i)
                   \<and> fb' ! (?base + i + 128) = HighByte (Glyph Font6x8 chChar ! i)"
    using inside by (simp add: Glyph_def)
  moreover have "\<forall>k. (\<forall>i<6. k \<noteq> ?base + i \<and> k \<noteq> ?base + i + 128) \<longrightarrow> fb' ! k = mFramebuffer this ! k"
    using outside by simp
  ultimately show ?thesis using len by blast
qed

subsection \<open>What Print draws\<close>

lemma unat_cursor_next: "nCursorX < 20 \<Longrightarrow> unat (nCursorX + 1) = unat nCursorX + 1"
  for nCursorX :: u8
proof -
  assume "nCursorX < 20"
  then have "unat nCursorX < 20" by (simp add: word_less_nat_alt)
  then show ?thesis by (simp add: unat_word_ariths)
qed

lemma draw_chars_append:
  "draw_chars Font6x8 (as @ bs) x y this
     = and_then (draw_chars Font6x8 as x y this) (draw_chars Font6x8 bs (x + of_nat (length as)) y)"
proof (induction as arbitrary: x this)
  case Nil
  then show ?case by (simp add: and_then_def)
next
  case (Cons a as)
  show ?case
  proof (cases "DrawChar Font6x8 a x y False False this")
    case (Inl e)
    then show ?thesis by (simp add: and_then_def)
  next
    case (Inr this1)
    have "x + 1 + word_of_nat (length as) = x + (1 + word_of_nat (length as))"
      by (simp add: add.assoc)
    with Inr Cons.IH [of "x + 1" this1] show ?thesis by (simp add: and_then_def)
  qed
qed

lemma Print_text_draws:
  "Print_text Font6x8 pText x y this
     = (case draw_chars Font6x8 (take (20 - unat x) (takeWhile (\<lambda>c. c \<noteq> 0) pText)) x y this of
          Inl e \<Rightarrow> Inl e
        | Inr this' \<Rightarrow>
            Inr (x + of_nat (length (take (20 - unat x) (takeWhile (\<lambda>c. c \<noteq> 0) pText))), this'))"
proof (induction pText arbitrary: x this)
  case Nil
  then show ?case by simp
next
  case (Cons c pText)
  show ?case
  proof (cases "c \<noteq> 0 \<and> x < 20")
    case True
    then have next_x: "unat (x + 1) = unat x + 1" by (simp add: unat_cursor_next)
    from True have "unat x < 20" by (simp add: word_less_nat_alt)
    then have budget: "20 - unat x = Suc (20 - unat (x + 1))" using next_x by simp
    show ?thesis
    proof (cases "DrawChar Font6x8 c x y False False this")
      case (Inl e)
      with True budget show ?thesis by (simp add: and_then_def)
    next
      case (Inr this1)
      with True budget Cons.IH [of "x + 1" this1] show ?thesis
        by (simp add: and_then_def add.assoc split: sum.splits)
    qed
  next
    case False
    then have "c = 0 \<or> 20 - unat x = 0" by (auto simp add: word_less_nat_alt)
    with False show ?thesis by auto
  qed
qed

lemma Print_clear_draws:
  "Print_clear Font6x8 x y this = draw_chars Font6x8 (replicate (20 - unat x) 0x20) x y this"
proof (induction Font6x8 x y this rule: Print_clear.induct)
  case (1 Font6x8 x y this)
  show ?case
  proof (cases "x < 20")
    case True
    then have next_x: "unat (x + 1) = unat x + 1" by (simp add: unat_cursor_next)
    from True have "unat x < 20" by (simp add: word_less_nat_alt)
    then have budget: "20 - unat x = Suc (20 - unat (x + 1))" using next_x by simp
    show ?thesis
    proof (cases "DrawChar Font6x8 0x20 x y False False this")
      case (Inl e)
      with True budget show ?thesis
        by (subst Print_clear.simps) (simp add: and_then_def)
    next
      case (Inr this1)
      with True budget "1.IH" [OF True Inr] show ?thesis
        by (subst Print_clear.simps) (simp add: and_then_def)
    qed
  next
    case False
    then have "20 - unat x = 0" by (simp add: word_less_nat_alt)
    with False show ?thesis by (subst Print_clear.simps) simp
  qed
qed

lemma Print_draws:
  "Print Font6x8 pText x y bClearLine bImmediate this
     = and_then
         (draw_chars Font6x8
            (printed pText x
              @ (if bClearLine then replicate (20 - unat x - length (printed pText x)) 0x20 else []))
            x y this)
         (if bImmediate then WriteFramebuffer else Inr)"
proof -
  let ?cs = "printed pText x"
  have len: "length ?cs \<le> 20 - unat x" by (simp add: printed_def)
  have after: "20 - unat (x + of_nat (length ?cs)) = 20 - unat x - length ?cs"
  proof (cases "unat x \<le> 20")
    case True
    with len have "unat x + length ?cs \<le> 20" by simp
    then have "unat (x + of_nat (length ?cs)) = unat x + length ?cs"
      by (simp add: unat_word_ariths unat_of_nat)
    then show ?thesis by simp
  next
    case False
    then have "?cs = []" by (simp add: printed_def)
    with False show ?thesis by simp
  qed
  show ?thesis
  proof (cases "draw_chars Font6x8 ?cs x y this")
    case (Inl e)
    then show ?thesis
      by (simp add: Print_def Print_text_draws draw_chars_append and_then_def printed_def)
  next
    case (Inr this1)
    then show ?thesis
      using after
      by (cases bImmediate; cases bClearLine)
         (simp_all add: Print_def Print_text_draws Print_clear_draws draw_chars_append and_then_def
            printed_def split: sum.splits)
  qed
qed

lemma cells_apart:
  "col \<le> 19 \<Longrightarrow> col' \<le> 19 \<Longrightarrow> i < 6 \<Longrightarrow> i' < 6 \<Longrightarrow> col \<noteq> col' \<Longrightarrow>
   CellOffset col row + i \<noteq> CellOffset col' row + i'
   \<and> CellOffset col row + i \<noteq> CellOffset col' row + i' + 128
   \<and> CellOffset col row + i + 128 \<noteq> CellOffset col' row + i'
   \<and> CellOffset col row + i + 128 \<noteq> CellOffset col' row + i' + 128"
  unfolding CellOffset_def by arith

lemma CellOffset_mono: "col \<le> col' \<Longrightarrow> CellOffset col row \<le> CellOffset col' row"
  by (simp add: CellOffset_def)

lemma draw_chars_cells:
  assumes "unat x + length cs \<le> 20"
    and "\<forall>c\<in>set cs. unat ((if c = 0xFF then 0x80 else c) - 32) < length Font6x8"
    and "CellOffset 19 (unat y) + 5 + 128 < length (mFramebuffer this)"
  shows "\<exists>fb'. draw_chars Font6x8 cs x y this = Inr (this\<lparr>mFramebuffer := fb'\<rparr>)
           \<and> length fb' = length (mFramebuffer this)
           \<and> (\<forall>n<length cs. \<forall>i<6.
                 fb' ! (CellOffset (unat x + n) (unat y) + i) = LowByte (Glyph Font6x8 (cs ! n) ! i)
                 \<and> fb' ! (CellOffset (unat x + n) (unat y) + i + 128)
                     = HighByte (Glyph Font6x8 (cs ! n) ! i))
           \<and> (\<forall>k. (\<forall>n<length cs. \<forall>i<6. k \<noteq> CellOffset (unat x + n) (unat y) + i
                                        \<and> k \<noteq> CellOffset (unat x + n) (unat y) + i + 128)
                  \<longrightarrow> fb' ! k = mFramebuffer this ! k)"
  using assms
proof (induction cs arbitrary: x this)
  case Nil
  have "this\<lparr>mFramebuffer := mFramebuffer this\<rparr> = this" by simp
  then show ?case by (metis draw_chars.simps(1) less_nat_zero_code list.size(3))
next
  case (Cons c cs)
  let ?r = "unat y"
  have x19: "unat x \<le> 19" using Cons.prems(1) by simp
  then have "x < 20" by (simp add: word_less_nat_alt)
  then have next_x: "unat (x + 1) = unat x + 1" by (rule unat_cursor_next)
  have "CellOffset (unat x) ?r \<le> CellOffset 19 ?r" using x19 by (rule CellOffset_mono)
  then have room: "CellOffset (unat x) ?r + 5 + 128 < length (mFramebuffer this)"
    using Cons.prems(3) by simp
  have glyph: "unat ((if c = 0xFF then 0x80 else c) - 32) < length Font6x8"
    using Cons.prems(2) by simp
  from DrawChar_cell [OF glyph room] obtain fb1 where
    first: "DrawChar Font6x8 c x y False False this = Inr (this\<lparr>mFramebuffer := fb1\<rparr>)"
    and len1: "length fb1 = length (mFramebuffer this)"
    and in1: "\<forall>i<6. fb1 ! (CellOffset (unat x) ?r + i) = LowByte (Glyph Font6x8 c ! i)
                   \<and> fb1 ! (CellOffset (unat x) ?r + i + 128) = HighByte (Glyph Font6x8 c ! i)"
    and out1: "\<forall>k. (\<forall>i<6. k \<noteq> CellOffset (unat x) ?r + i \<and> k \<noteq> CellOffset (unat x) ?r + i + 128)
                  \<longrightarrow> fb1 ! k = mFramebuffer this ! k"
    by blast
  let ?this1 = "this\<lparr>mFramebuffer := fb1\<rparr>"
  have "\<exists>fb'. draw_chars Font6x8 cs (x + 1) y ?this1 = Inr (?this1\<lparr>mFramebuffer := fb'\<rparr>)
           \<and> length fb' = length (mFramebuffer ?this1)
           \<and> (\<forall>n<length cs. \<forall>i<6.
                 fb' ! (CellOffset (unat (x + 1) + n) ?r + i) = LowByte (Glyph Font6x8 (cs ! n) ! i)
                 \<and> fb' ! (CellOffset (unat (x + 1) + n) ?r + i + 128)
                     = HighByte (Glyph Font6x8 (cs ! n) ! i))
           \<and> (\<forall>k. (\<forall>n<length cs. \<forall>i<6. k \<noteq> CellOffset (unat (x + 1) + n) ?r + i
                                        \<and> k \<noteq> CellOffset (unat (x + 1) + n) ?r + i + 128)
                  \<longrightarrow> fb' ! k = mFramebuffer ?this1 ! k)"
    using Cons.prems next_x len1 by (intro Cons.IH) simp_all
  then obtain fb' where
    rest: "draw_chars Font6x8 cs (x + 1) y ?this1 = Inr (this\<lparr>mFramebuffer := fb'\<rparr>)"
    and len: "length fb' = length fb1"
    and inside: "\<forall>n<length cs. \<forall>i<6.
                 fb' ! (CellOffset (unat x + Suc n) ?r + i) = LowByte (Glyph Font6x8 (cs ! n) ! i)
                 \<and> fb' ! (CellOffset (unat x + Suc n) ?r + i + 128)
                     = HighByte (Glyph Font6x8 (cs ! n) ! i)"
    and outside: "\<forall>k. (\<forall>n<length cs. \<forall>i<6. k \<noteq> CellOffset (unat x + Suc n) ?r + i
                                        \<and> k \<noteq> CellOffset (unat x + Suc n) ?r + i + 128)
                  \<longrightarrow> fb' ! k = fb1 ! k"
    using next_x by auto
  have apart: "\<forall>i<6. \<forall>n<length cs. \<forall>i'<6.
        CellOffset (unat x) ?r + i \<noteq> CellOffset (unat x + Suc n) ?r + i'
        \<and> CellOffset (unat x) ?r + i \<noteq> CellOffset (unat x + Suc n) ?r + i' + 128
        \<and> CellOffset (unat x) ?r + i + 128 \<noteq> CellOffset (unat x + Suc n) ?r + i'
        \<and> CellOffset (unat x) ?r + i + 128 \<noteq> CellOffset (unat x + Suc n) ?r + i' + 128"
  proof (intro allI impI)
    fix i n i' :: nat
    assume "i < 6" "n < length cs" "i' < 6"
    moreover from \<open>n < length cs\<close> have "unat x + Suc n \<le> 19" "unat x \<noteq> unat x + Suc n"
      using Cons.prems(1) by simp_all
    ultimately show "CellOffset (unat x) ?r + i \<noteq> CellOffset (unat x + Suc n) ?r + i'
        \<and> CellOffset (unat x) ?r + i \<noteq> CellOffset (unat x + Suc n) ?r + i' + 128
        \<and> CellOffset (unat x) ?r + i + 128 \<noteq> CellOffset (unat x + Suc n) ?r + i'
        \<and> CellOffset (unat x) ?r + i + 128 \<noteq> CellOffset (unat x + Suc n) ?r + i' + 128"
      using x19 by (intro cells_apart)
  qed
  have head: "\<forall>i<6. fb' ! (CellOffset (unat x) ?r + i) = LowByte (Glyph Font6x8 c ! i)
                   \<and> fb' ! (CellOffset (unat x) ?r + i + 128) = HighByte (Glyph Font6x8 c ! i)"
  proof -
    have "\<forall>i<6. fb' ! (CellOffset (unat x) ?r + i) = fb1 ! (CellOffset (unat x) ?r + i)
              \<and> fb' ! (CellOffset (unat x) ?r + i + 128) = fb1 ! (CellOffset (unat x) ?r + i + 128)"
      using apart outside by blast
    then show ?thesis using in1 by simp
  qed
  have cells: "\<forall>n<length (c # cs). \<forall>i<6.
                 fb' ! (CellOffset (unat x + n) ?r + i) = LowByte (Glyph Font6x8 ((c # cs) ! n) ! i)
                 \<and> fb' ! (CellOffset (unat x + n) ?r + i + 128)
                     = HighByte (Glyph Font6x8 ((c # cs) ! n) ! i)"
  proof (intro allI impI)
    fix n i :: nat
    assume n: "n < length (c # cs)" and i: "i < 6"
    show "fb' ! (CellOffset (unat x + n) ?r + i) = LowByte (Glyph Font6x8 ((c # cs) ! n) ! i)
          \<and> fb' ! (CellOffset (unat x + n) ?r + i + 128)
              = HighByte (Glyph Font6x8 ((c # cs) ! n) ! i)"
    proof (cases n)
      case 0
      then show ?thesis using head i by simp
    next
      case (Suc m)
      with n have "m < length cs" by simp
      with inside i Suc show ?thesis by simp
    qed
  qed
  have frame: "\<forall>k. (\<forall>n<length (c # cs). \<forall>i<6. k \<noteq> CellOffset (unat x + n) ?r + i
                                        \<and> k \<noteq> CellOffset (unat x + n) ?r + i + 128)
                  \<longrightarrow> fb' ! k = mFramebuffer this ! k"
  proof (intro allI impI)
    fix k
    assume away: "\<forall>n<length (c # cs). \<forall>i<6. k \<noteq> CellOffset (unat x + n) ?r + i
                                        \<and> k \<noteq> CellOffset (unat x + n) ?r + i + 128"
    have "\<forall>n<length cs. \<forall>i<6. k \<noteq> CellOffset (unat x + Suc n) ?r + i
                                        \<and> k \<noteq> CellOffset (unat x + Suc n) ?r + i + 128"
    proof (intro allI impI)
      fix n i :: nat
      assume "n < length cs" and i: "i < 6"
      then have "Suc n < length (c # cs)" by simp
      from away [rule_format, OF this i]
      show "k \<noteq> CellOffset (unat x + Suc n) ?r + i
            \<and> k \<noteq> CellOffset (unat x + Suc n) ?r + i + 128" .
    qed
    then have "fb' ! k = fb1 ! k" using outside by blast
    moreover have "\<forall>i<6. k \<noteq> CellOffset (unat x) ?r + i \<and> k \<noteq> CellOffset (unat x) ?r + i + 128"
    proof (intro allI impI)
      fix i :: nat
      assume i: "i < 6"
      have "0 < length (c # cs)" by simp
      from away [rule_format, OF this i]
      show "k \<noteq> CellOffset (unat x) ?r + i \<and> k \<noteq> CellOffset (unat x) ?r + i + 128"
        by simp
    qed
    then have "fb1 ! k = mFramebuffer this ! k" using out1 by blast
    ultimately show "fb' ! k = mFramebuffer this ! k" by simp
  qed
  have "draw_chars Font6x8 (c # cs) x y this = Inr (this\<lparr>mFramebuffer := fb'\<rparr>)"
    using first rest by (simp add: and_then_def)
  moreover have "length fb' = length (mFramebuffer this)" using len len1 by simp
  ultimately show ?case using cells frame by blast
qed

lemma and_then_Inr: "and_then r Inr = r"
  by (cases r) (simp_all add: and_then_def)

lemma takeWhile_no_NUL: "0 \<notin> set pText \<Longrightarrow> takeWhile (\<lambda>c. c \<noteq> 0) pText = pText"
  for pText :: "u8 list"
  by (induction pText) auto

lemma printed_no_NUL: "0 \<notin> set pText \<Longrightarrow> printed pText 0 = take 20 pText"
  by (simp add: printed_def takeWhile_no_NUL)

lemma Print_5_characters_clear:
  assumes "0 \<notin> set pText" and "length pText = 5"
  shows "Print Font6x8 pText 0 y True False this
           = draw_chars Font6x8 (pText @ replicate 15 0x20) 0 y this"
  using assms by (simp add: Print_draws printed_no_NUL and_then_Inr)

lemma Print_5_characters_blank_cells:
  assumes "0 \<notin> set pText" and "length pText = 5"
    and "\<forall>c\<in>set pText. unat ((if c = 0xFF then 0x80 else c) - 32) < length Font6x8"
    and "Font6x8 \<noteq> []"
    and "CellOffset 19 (unat y) + 5 + 128 < length (mFramebuffer this)"
  shows "\<exists>fb'. Print Font6x8 pText 0 y True False this = Inr (this\<lparr>mFramebuffer := fb'\<rparr>)
           \<and> (\<forall>col i. 5 \<le> col \<and> col \<le> 19 \<and> i < 6 \<longrightarrow>
                 fb' ! (CellOffset col (unat y) + i) = LowByte (Glyph Font6x8 0x20 ! i)
                 \<and> fb' ! (CellOffset col (unat y) + i + 128) = HighByte (Glyph Font6x8 0x20 ! i))"
proof -
  let ?cs = "pText @ replicate 15 (0x20 :: u8)"
  have len: "unat (0::u8) + length ?cs \<le> 20" using assms(2) by simp
  have glyphs: "\<forall>c\<in>set ?cs. unat ((if c = 0xFF then 0x80 else c) - 32) < length Font6x8"
    using assms(3,4) by auto
  from draw_chars_cells [OF len glyphs assms(5)] obtain fb' where
    run: "draw_chars Font6x8 ?cs 0 y this = Inr (this\<lparr>mFramebuffer := fb'\<rparr>)"
    and cells: "\<forall>n<length ?cs. \<forall>i<6.
                 fb' ! (CellOffset (unat (0::u8) + n) (unat y) + i) = LowByte (Glyph Font6x8 (?cs ! n) ! i)
                 \<and> fb' ! (CellOffset (unat (0::u8) + n) (unat y) + i + 128)
                     = HighByte (Glyph Font6x8 (?cs ! n) ! i)"
    by blast
  have blank: "fb' ! (CellOffset col (unat y) + i) = LowByte (Glyph Font6x8 0x20 ! i)
                 \<and> fb' ! (CellOffset col (unat y) + i + 128) = HighByte (Glyph Font6x8 0x20 ! i)"
    if "5 \<le> col" "col \<le> 19" "i < 6" for col i
  proof -
    have "col < length ?cs" using that assms(2) by simp
    moreover have "?cs ! col = 0x20" using that assms(2) by (simp add: nth_append)
    ultimately show ?thesis using cells that(3) by fastforce
  qed
  have "Print Font6x8 pText 0 y True False this = Inr (this\<lparr>mFramebuffer := fb'\<rparr>)"
    using run Print_5_characters_clear [OF assms(1,2)] by simp
  with blank show ?thesis by blast
qed

lemma Print_immediate:
  "Print Font6x8 pText x y bClearLine True this
     = and_then (Print Font6x8 pText x y bClearLine False this) WriteFramebuffer"
  by (simp add: Print_draws and_then_Inr)

lemma WriteFramebuffer_sends:
  assumes "mI2CMaster this = Some bus"
    and "unat (mHeight this) * 16 + 1 \<le> length (mFramebuffer this)"
  shows "WriteFramebuffer this
           = Inr (this\<lparr>mI2CMaster := Some (bus @
                [(mAddress this, take (unat (mHeight this) * 16 + 1) (mFramebuffer this))])\<rparr>)"
  using assms by (simp add: WriteFramebuffer_def I2C_Write_def)

lemma LowByte_ucast: "LowByte w = ucast w"
proof -
  have "(0xFF::int) = mask 8" by (simp add: mask_eq_exp_minus_1)
  then have "LowByte w = word_of_int (uint w AND mask 8)" by (simp add: LowByte_def)
  also have "\<dots> = ucast w"
    by (rule bit_word_eqI) (auto simp add: bit_simps)
  finally show ?thesis .
qed

lemma HighByte_ucast: "HighByte w = ucast (drop_bit 8 w)"
proof -
  have "(0xFF::int) = mask 8" by (simp add: mask_eq_exp_minus_1)
  then have "HighByte w = word_of_int (drop_bit 8 (uint w) AND mask 8)" by (simp add: HighByte_def)
  also have "\<dots> = ucast (drop_bit 8 w)"
    by (rule bit_word_eqI) (auto simp add: bit_simps)
  finally show ?thesis .
qed

lemma Print_column_0_cells:
  assumes cs: "cs = take 20 (takeWhile (\<lambda>c. c \<noteq> 0) pText)"
    and glyphs: "\<forall>c\<in>set cs. unat ((if c = 0xFF then 0x80 else c) - 32) < length Font6x8"
    and blank: "bClearLine \<longrightarrow> Font6x8 \<noteq> []"
    and room: "CellOffset 19 (unat y) + 5 + 128 < length (mFramebuffer this)"
  shows "\<exists>fb'. Print Font6x8 pText 0 y bClearLine False this = Inr (this\<lparr>mFramebuffer := fb'\<rparr>)
           \<and> length fb' = length (mFramebuffer this)
           \<and> (\<forall>n<length cs. \<forall>i<6.
                 fb' ! (CellOffset n (unat y) + i) = LowByte (Glyph Font6x8 (cs ! n) ! i)
                 \<and> fb' ! (CellOffset n (unat y) + i + 128) = HighByte (Glyph Font6x8 (cs ! n) ! i))
           \<and> (bClearLine \<longrightarrow> (\<forall>n. length cs \<le> n \<and> n < 20 \<longrightarrow> (\<forall>i<6.
                 fb' ! (CellOffset n (unat y) + i) = LowByte (Glyph Font6x8 0x20 ! i)
                 \<and> fb' ! (CellOffset n (unat y) + i + 128) = HighByte (Glyph Font6x8 0x20 ! i))))
           \<and> (\<forall>k. (\<forall>n<(if bClearLine then 20 else length cs). \<forall>i<6.
                       k \<noteq> CellOffset n (unat y) + i \<and> k \<noteq> CellOffset n (unat y) + i + 128)
                  \<longrightarrow> fb' ! k = mFramebuffer this ! k)"
proof -
  let ?pad = "if bClearLine then replicate (20 - length cs) (0x20::u8) else []"
  let ?all = "cs @ ?pad"
  have printed: "printed pText 0 = cs" by (simp add: printed_def cs)
  have len_cs: "length cs \<le> 20" by (simp add: cs)
  have len_all: "length ?all = (if bClearLine then 20 else length cs)"
    using len_cs by simp
  have draw: "Print Font6x8 pText 0 y bClearLine False this = draw_chars Font6x8 ?all 0 y this"
    by (simp add: Print_draws printed and_then_Inr)
  have fits: "unat (0::u8) + length ?all \<le> 20" using len_cs by simp
  have all_glyphs: "\<forall>c\<in>set ?all. unat ((if c = 0xFF then 0x80 else c) - 32) < length Font6x8"
    using glyphs blank by auto
  from draw_chars_cells [OF fits all_glyphs room] obtain fb' where
    run: "draw_chars Font6x8 ?all 0 y this = Inr (this\<lparr>mFramebuffer := fb'\<rparr>)"
    and len: "length fb' = length (mFramebuffer this)"
    and cells: "\<forall>n<length ?all. \<forall>i<6.
                 fb' ! (CellOffset (unat (0::u8) + n) (unat y) + i) = LowByte (Glyph Font6x8 (?all ! n) ! i)
                 \<and> fb' ! (CellOffset (unat (0::u8) + n) (unat y) + i + 128)
                     = HighByte (Glyph Font6x8 (?all ! n) ! i)"
    and frame: "\<forall>k. (\<forall>n<length ?all. \<forall>i<6. k \<noteq> CellOffset (unat (0::u8) + n) (unat y) + i
                                        \<and> k \<noteq> CellOffset (unat (0::u8) + n) (unat y) + i + 128)
                  \<longrightarrow> fb' ! k = mFramebuffer this ! k"
    by blast
  have text_cells: "\<forall>n<length cs. \<forall>i<6.
                 fb' ! (CellOffset n (unat y) + i) = LowByte (Glyph Font6x8 (cs ! n) ! i)
                 \<and> fb' ! (CellOffset n (unat y) + i + 128) = HighByte (Glyph Font6x8 (cs ! n) ! i)"
  proof (intro allI impI)
    fix n i :: nat
    assume n: "n < length cs" and i: "i < 6"
    then have "n < length ?all" and "?all ! n = cs ! n" by (simp_all add: nth_append)
    with cells i show "fb' ! (CellOffset n (unat y) + i) = LowByte (Glyph Font6x8 (cs ! n) ! i)
                 \<and> fb' ! (CellOffset n (unat y) + i + 128) = HighByte (Glyph Font6x8 (cs ! n) ! i)"
      by fastforce
  qed
  have blank_cells: "bClearLine \<longrightarrow> (\<forall>n. length cs \<le> n \<and> n < 20 \<longrightarrow> (\<forall>i<6.
                 fb' ! (CellOffset n (unat y) + i) = LowByte (Glyph Font6x8 0x20 ! i)
                 \<and> fb' ! (CellOffset n (unat y) + i + 128) = HighByte (Glyph Font6x8 0x20 ! i)))"
  proof (intro allI impI)
    fix n i :: nat
    assume cl: bClearLine and n: "length cs \<le> n \<and> n < 20" and i: "i < 6"
    then have "n < length ?all" and "?all ! n = 0x20" by (auto simp add: nth_append)
    with cells i show "fb' ! (CellOffset n (unat y) + i) = LowByte (Glyph Font6x8 0x20 ! i)
                 \<and> fb' ! (CellOffset n (unat y) + i + 128) = HighByte (Glyph Font6x8 0x20 ! i)"
      by fastforce
  qed
  have rest: "\<forall>k. (\<forall>n<(if bClearLine then 20 else length cs). \<forall>i<6.
                       k \<noteq> CellOffset n (unat y) + i \<and> k \<noteq> CellOffset n (unat y) + i + 128)
                  \<longrightarrow> fb' ! k = mFramebuffer this ! k"
    using frame unfolding len_all by simp
  have "Print Font6x8 pText 0 y bClearLine False this = Inr (this\<lparr>mFramebuffer := fb'\<rparr>)"
    using draw run by simp
  then show ?thesis
    using len text_cells blank_cells rest by blast
qed

lemma cell_offset: "CellOffset n row + i = row * 256 + n * 6 + 4 + i"
  by (simp add: CellOffset_def)

lemma cell_offset_128: "CellOffset n row + i + 128 = row * 256 + n * 6 + 4 + i + 128"
  by (simp add: CellOffset_def)

text \<open>
  C7. \<open>Print\<close> from the cell 0 draws the characters of the text before its NUL, at most
  20 of them: where the font has their glyphs and the framebuffer holds the row, it
  returns, the cell \<open>n\<close> holds the glyph of the character \<open>n\<close> (the low byte of each of
  its six columns on the upper page, the high byte on the page below, at the pitch of 6
  bytes from the offset 4 of the row), and no byte outside the cells written changes. So of
  a text of 30 characters exactly the first 20 are drawn. With \<open>bClearLine\<close> the cells
  after the text, up to the cell 19, hold the glyph of the space: after a text of 5
  characters, the cells 5 to 19. With \<open>bImmediate\<close> the bus then receives one write of
  the \<open>mHeight * 16 + 1\<close> bytes of the framebuffer as drawn.
\<close>

theorem Print_draws_at_most_20_characters:
  assumes cs: "cs = take 20 (takeWhile (\<lambda>c. c \<noteq> 0) pText)"
    and glyphs: "\<forall>c\<in>set cs. unat ((if c = 0xFF then 0x80 else c) - 32) < length Font6x8"
    and blank: "bClearLine \<longrightarrow> Font6x8 \<noteq> []"
    and room: "unat y * 256 + 252 \<le> length (mFramebuffer this)"
    and bus: "bImmediate \<longrightarrow> mI2CMaster this = Some bus
                \<and> unat (mHeight this) * 16 + 1 \<le> length (mFramebuffer this)"
  shows "\<exists>fb'. Print Font6x8 pText 0 y bClearLine bImmediate this
                 = Inr (if bImmediate
                        then this\<lparr>mFramebuffer := fb', mI2CMaster := Some (bus @
                               [(mAddress this, take (unat (mHeight this) * 16 + 1) fb')])\<rparr>
                        else this\<lparr>mFramebuffer := fb'\<rparr>)
           \<and> length fb' = length (mFramebuffer this)
           \<and> length cs \<le> 20
           \<and> (0 \<notin> set pText \<longrightarrow> cs = take 20 pText)
           \<and> (\<forall>n<length cs. \<forall>i<6.
                 fb' ! (unat y * 256 + n * 6 + 4 + i)
                   = ucast (FontDouble Font6x8
                              ! unat ((if cs ! n = 0xFF then 0x80 else cs ! n) - 32) ! i)
                 \<and> fb' ! (unat y * 256 + n * 6 + 4 + i + 128)
                   = ucast (drop_bit 8 (FontDouble Font6x8
                              ! unat ((if cs ! n = 0xFF then 0x80 else cs ! n) - 32) ! i)))
           \<and> (bClearLine \<longrightarrow> (\<forall>n. length cs \<le> n \<and> n < 20 \<longrightarrow> (\<forall>i<6.
                 fb' ! (unat y * 256 + n * 6 + 4 + i) = ucast (FontDouble Font6x8 ! 0 ! i)
                 \<and> fb' ! (unat y * 256 + n * 6 + 4 + i + 128)
                   = ucast (drop_bit 8 (FontDouble Font6x8 ! 0 ! i)))))
           \<and> (\<forall>k. (\<forall>n<(if bClearLine then 20 else length cs). \<forall>i<6.
                       k \<noteq> unat y * 256 + n * 6 + 4 + i
                       \<and> k \<noteq> unat y * 256 + n * 6 + 4 + i + 128)
                  \<longrightarrow> fb' ! k = mFramebuffer this ! k)"
proof -
  have room': "CellOffset 19 (unat y) + 5 + 128 < length (mFramebuffer this)"
    using room by (simp add: CellOffset_def)
  have space: "Glyph Font6x8 0x20 = FontDouble Font6x8 ! 0"
    by (simp add: Glyph_def)
  from Print_column_0_cells [OF cs glyphs blank room'] obtain fb' where
    run: "Print Font6x8 pText 0 y bClearLine False this = Inr (this\<lparr>mFramebuffer := fb'\<rparr>)"
    and len: "length fb' = length (mFramebuffer this)"
    and text_cells: "\<forall>n<length cs. \<forall>i<6.
                 fb' ! (CellOffset n (unat y) + i) = LowByte (Glyph Font6x8 (cs ! n) ! i)
                 \<and> fb' ! (CellOffset n (unat y) + i + 128) = HighByte (Glyph Font6x8 (cs ! n) ! i)"
    and blank_cells: "bClearLine \<longrightarrow> (\<forall>n. length cs \<le> n \<and> n < 20 \<longrightarrow> (\<forall>i<6.
                 fb' ! (CellOffset n (unat y) + i) = LowByte (Glyph Font6x8 0x20 ! i)
                 \<and> fb' ! (CellOffset n (unat y) + i + 128) = HighByte (Glyph Font6x8 0x20 ! i)))"
    and rest: "\<forall>k. (\<forall>n<(if bClearLine then 20 else length cs). \<forall>i<6.
                       k \<noteq> CellOffset n (unat y) + i \<and> k \<noteq> CellOffset n (unat y) + i + 128)
                  \<longrightarrow> fb' ! k = mFramebuffer this ! k"
    by blast
  have result: "Print Font6x8 pText 0 y bClearLine bImmediate this
                 = Inr (if bImmediate
                        then this\<lparr>mFramebuffer := fb', mI2CMaster := Some (bus @
                               [(mAddress this, take (unat (mHeight this) * 16 + 1) fb')])\<rparr>
                        else this\<lparr>mFramebuffer := fb'\<rparr>)"
  proof (cases bImmediate)
    case False
    with run show ?thesis by simp
  next
    case True
    with bus have "mI2CMaster (this\<lparr>mFramebuffer := fb'\<rparr>) = Some bus"
      and "unat (mHeight (this\<lparr>mFramebuffer := fb'\<rparr>)) * 16 + 1
             \<le> length (mFramebuffer (this\<lparr>mFramebuffer := fb'\<rparr>))"
      using len by simp_all
    from WriteFramebuffer_sends [OF this]
    have "WriteFramebuffer (this\<lparr>mFramebuffer := fb'\<rparr>)
            = Inr (this\<lparr>mFramebuffer := fb', mI2CMaster := Some (bus @
                               [(mAddress this, take (unat (mHeight this) * 16 + 1) fb')])\<rparr>)"
      by simp
    with True run show ?thesis
      by (simp add: Print_immediate and_then_def)
  qed
  have c3: "length cs \<le> 20" by (simp add: cs)
  have c4: "0 \<notin> set pText \<longrightarrow> cs = take 20 pText"
    by (simp add: cs takeWhile_no_NUL)
  have c5: "\<forall>n<length cs. \<forall>i<6.
                 fb' ! (unat y * 256 + n * 6 + 4 + i)
                   = ucast (FontDouble Font6x8
                              ! unat ((if cs ! n = 0xFF then 0x80 else cs ! n) - 32) ! i)
                 \<and> fb' ! (unat y * 256 + n * 6 + 4 + i + 128)
                   = ucast (drop_bit 8 (FontDouble Font6x8
                              ! unat ((if cs ! n = 0xFF then 0x80 else cs ! n) - 32) ! i))"
    using text_cells
    unfolding cell_offset cell_offset_128 LowByte_ucast HighByte_ucast Glyph_def .
  have c6: "bClearLine \<longrightarrow> (\<forall>n. length cs \<le> n \<and> n < 20 \<longrightarrow> (\<forall>i<6.
                 fb' ! (unat y * 256 + n * 6 + 4 + i) = ucast (FontDouble Font6x8 ! 0 ! i)
                 \<and> fb' ! (unat y * 256 + n * 6 + 4 + i + 128)
                   = ucast (drop_bit 8 (FontDouble Font6x8 ! 0 ! i))))"
    using blank_cells
    unfolding cell_offset cell_offset_128 LowByte_ucast HighByte_ucast space .
  have c7: "\<forall>k. (\<forall>n<(if bClearLine then 20 else length cs). \<forall>i<6.
                       k \<noteq> unat y * 256 + n * 6 + 4 + i
                       \<and> k \<noteq> unat y * 256 + n * 6 + 4 + i + 128)
                  \<longrightarrow> fb' ! k = mFramebuffer this ! k"
    using rest unfolding cell_offset cell_offset_128 .
  show ?thesis
    by (rule exI [of _ fb']) (intro conjI; (rule result len c3 c4 c5 c6 c7))
qed

lemma example_glyph_columns:
  "DoubleColumn [0x20, 0x10, 0, 0, 0, 0, 0, 0x01] 0 = 0x0003"
  "DoubleColumn [0x20, 0x10, 0, 0, 0, 0, 0, 0x01] 5 = 0xC000"
  "DoubleColumn [0, 0, 0, 0, 0, 0, 0, 0] n = 0"
  by (simp_all add: DoubleColumn_def SingleColumn_def upt_8)

text \<open>
  On a 128x64 framebuffer whose drawable bytes are all \<open>0xFF\<close>, with a font of 97
  glyphs, blank for the space and with a lit corner at the top left and at the bottom right
  for every other character: a text of thirty \<open>A\<close> fills the cells 0 to 19 and leaves the
  byte 124, the first one after the cell 19, as it was; the text \<open>HELLO\<close> with
  \<open>bClearLine\<close> and \<open>bImmediate\<close> leaves the cells 5 to 19 dark and sends the
  framebuffer.
\<close>

theorem Print_draws_at_most_20_characters_witness:
  "(\<exists>fb'. Print ([0, 0, 0, 0, 0, 0, 0, 0] # replicate 96 [0x20, 0x10, 0, 0, 0, 0, 0, 0x01])
             (replicate 30 0x41) 0 0 False False
             \<lparr> mPartLevels = replicate 9 0, mPeakLevels = replicate 9 0, mI2CMaster = Some [],
               mAddress = 0x3C, mHeight = 64, mFramebuffer = 0x40 # replicate 1024 0xFF \<rparr>
           = Inr (\<lparr> mPartLevels = replicate 9 0, mPeakLevels = replicate 9 0,
                    mI2CMaster = Some [], mAddress = 0x3C, mHeight = 64,
                    mFramebuffer = 0x40 # replicate 1024 0xFF \<rparr> \<lparr>mFramebuffer := fb'\<rparr>)
         \<and> (\<forall>n<20. fb' ! (n * 6 + 4) = 0x03 \<and> fb' ! (n * 6 + 4 + 5 + 128) = 0xC0)
         \<and> fb' ! 0 = 0x40 \<and> fb' ! 124 = 0xFF)
   \<and> (\<exists>fb'. Print ([0, 0, 0, 0, 0, 0, 0, 0] # replicate 96 [0x20, 0x10, 0, 0, 0, 0, 0, 0x01])
             [0x48, 0x45, 0x4C, 0x4C, 0x4F] 0 0 True True
             \<lparr> mPartLevels = replicate 9 0, mPeakLevels = replicate 9 0, mI2CMaster = Some [],
               mAddress = 0x3C, mHeight = 64, mFramebuffer = 0x40 # replicate 1024 0xFF \<rparr>
           = Inr (\<lparr> mPartLevels = replicate 9 0, mPeakLevels = replicate 9 0,
                    mI2CMaster = Some [], mAddress = 0x3C, mHeight = 64,
                    mFramebuffer = 0x40 # replicate 1024 0xFF \<rparr>
                  \<lparr>mFramebuffer := fb', mI2CMaster := Some [(0x3C, take 1025 fb')]\<rparr>)
         \<and> fb' ! 4 = 0x03
         \<and> (\<forall>n. 5 \<le> n \<and> n < 20 \<longrightarrow> (\<forall>i<6. fb' ! (n * 6 + 4 + i) = 0
                                           \<and> fb' ! (n * 6 + 4 + i + 128) = 0)))"
  (is "(\<exists>fb'. Print ?F ?long 0 0 False False ?s = _ \<and> _) \<and> (\<exists>fb'. Print ?F ?hello 0 0 True True ?s = _ \<and> _)")
proof -
  let ?g = "[0x20, 0x10, 0, 0, 0, 0, 0, 0x01] :: u8 list"
  have room: "unat (0::u8) * 256 + 252 \<le> length (mFramebuffer ?s)"
    by simp
  have glyph_A: "FontDouble ?F ! 33 ! 0 = 0x0003" "FontDouble ?F ! 33 ! 5 = 0xC000"
    by (simp_all add: FontDouble_def Font_nth example_glyph_columns)
  have glyph_H: "FontDouble ?F ! 40 ! 0 = 0x0003"
    by (simp add: FontDouble_def Font_nth example_glyph_columns)
  have glyph_space: "i < 6 \<Longrightarrow> FontDouble ?F ! 0 ! i = 0" for i
    by (simp add: FontDouble_def Font_nth example_glyph_columns)
  have first: "\<exists>fb'. Print ?F ?long 0 0 False False ?s = Inr (?s\<lparr>mFramebuffer := fb'\<rparr>)
         \<and> (\<forall>n<20. fb' ! (n * 6 + 4) = 0x03 \<and> fb' ! (n * 6 + 4 + 5 + 128) = 0xC0)
         \<and> fb' ! 0 = 0x40 \<and> fb' ! 124 = 0xFF"
  proof -
    let ?cs = "take 20 (takeWhile (\<lambda>c. c \<noteq> 0) ?long)"
    have cs: "?cs = replicate 20 0x41" by simp
    have glyphs: "\<forall>c\<in>set ?cs. unat ((if c = 0xFF then 0x80 else c) - 32) < length ?F"
      by simp
    have blank: "False \<longrightarrow> ?F \<noteq> []" by simp
    have bus: "False \<longrightarrow> mI2CMaster ?s = Some []
                \<and> unat (mHeight ?s) * 16 + 1 \<le> length (mFramebuffer ?s)"
      by simp
    from Print_draws_at_most_20_characters [OF refl glyphs blank room bus]
    obtain fb' where
      run: "Print ?F ?long 0 0 False False ?s = Inr (?s\<lparr>mFramebuffer := fb'\<rparr>)"
      and cells: "\<forall>n<length ?cs. \<forall>i<6.
                 fb' ! (unat (0::u8) * 256 + n * 6 + 4 + i)
                   = ucast (FontDouble ?F ! unat ((if ?cs ! n = 0xFF then 0x80 else ?cs ! n) - 32) ! i)
                 \<and> fb' ! (unat (0::u8) * 256 + n * 6 + 4 + i + 128)
                   = ucast (drop_bit 8 (FontDouble ?F
                              ! unat ((if ?cs ! n = 0xFF then 0x80 else ?cs ! n) - 32) ! i))"
      and rest: "\<forall>k. (\<forall>n<(if False then 20 else length ?cs). \<forall>i<6.
                       k \<noteq> unat (0::u8) * 256 + n * 6 + 4 + i
                       \<and> k \<noteq> unat (0::u8) * 256 + n * 6 + 4 + i + 128)
                  \<longrightarrow> fb' ! k = mFramebuffer ?s ! k"
      by auto
    have cells': "\<forall>n<20. \<forall>i<6.
                 fb' ! (n * 6 + 4 + i) = ucast (FontDouble ?F ! 33 ! i)
                 \<and> fb' ! (n * 6 + 4 + i + 128) = ucast (drop_bit 8 (FontDouble ?F ! 33 ! i))"
      using cells by simp
    have drawn: "\<forall>n<20. fb' ! (n * 6 + 4) = 0x03 \<and> fb' ! (n * 6 + 4 + 5 + 128) = 0xC0"
    proof (intro allI impI)
      fix n :: nat
      assume n: "n < 20"
      show "fb' ! (n * 6 + 4) = 0x03 \<and> fb' ! (n * 6 + 4 + 5 + 128) = 0xC0"
        using cells' [rule_format, OF n, of 0] cells' [rule_format, OF n, of 5]
        by (simp add: glyph_A)
    qed
    have "\<forall>n<(if False then 20 else length ?cs). \<forall>i<6.
            (0::nat) \<noteq> unat (0::u8) * 256 + n * 6 + 4 + i
            \<and> 0 \<noteq> unat (0::u8) * 256 + n * 6 + 4 + i + 128"
      by simp
    with rest have byte_0: "fb' ! 0 = 0x40" by fastforce
    have "\<forall>n<(if False then 20 else length ?cs). \<forall>i<6.
            (124::nat) \<noteq> unat (0::u8) * 256 + n * 6 + 4 + i
            \<and> 124 \<noteq> unat (0::u8) * 256 + n * 6 + 4 + i + 128"
      by auto
    with rest have "fb' ! 124 = mFramebuffer ?s ! 124" by blast
    then have byte_124: "fb' ! 124 = 0xFF" by simp
    from run drawn byte_0 byte_124 show ?thesis by blast
  qed
  have second: "\<exists>fb'. Print ?F ?hello 0 0 True True ?s
           = Inr (?s\<lparr>mFramebuffer := fb', mI2CMaster := Some [(0x3C, take 1025 fb')]\<rparr>)
         \<and> fb' ! 4 = 0x03
         \<and> (\<forall>n. 5 \<le> n \<and> n < 20 \<longrightarrow> (\<forall>i<6. fb' ! (n * 6 + 4 + i) = 0
                                           \<and> fb' ! (n * 6 + 4 + i + 128) = 0))"
  proof -
    let ?cs = "take 20 (takeWhile (\<lambda>c. c \<noteq> 0) ?hello)"
    have cs: "?cs = ?hello" by simp
    have glyphs: "\<forall>c\<in>set ?cs. unat ((if c = 0xFF then 0x80 else c) - 32) < length ?F"
      by simp
    have blank: "True \<longrightarrow> ?F \<noteq> []" by simp
    have bus: "True \<longrightarrow> mI2CMaster ?s = Some []
                \<and> unat (mHeight ?s) * 16 + 1 \<le> length (mFramebuffer ?s)"
      by simp
    from Print_draws_at_most_20_characters [OF refl glyphs blank room bus]
    obtain fb' where
      run: "Print ?F ?hello 0 0 True True ?s
              = Inr (?s\<lparr>mFramebuffer := fb', mI2CMaster := Some ([] @
                               [(mAddress ?s, take (unat (mHeight ?s) * 16 + 1) fb')])\<rparr>)"
      and cells: "\<forall>n<length ?cs. \<forall>i<6.
                 fb' ! (unat (0::u8) * 256 + n * 6 + 4 + i)
                   = ucast (FontDouble ?F ! unat ((if ?cs ! n = 0xFF then 0x80 else ?cs ! n) - 32) ! i)
                 \<and> fb' ! (unat (0::u8) * 256 + n * 6 + 4 + i + 128)
                   = ucast (drop_bit 8 (FontDouble ?F
                              ! unat ((if ?cs ! n = 0xFF then 0x80 else ?cs ! n) - 32) ! i))"
      and blanks: "\<forall>n. length ?cs \<le> n \<and> n < 20 \<longrightarrow> (\<forall>i<6.
                 fb' ! (unat (0::u8) * 256 + n * 6 + 4 + i) = ucast (FontDouble ?F ! 0 ! i)
                 \<and> fb' ! (unat (0::u8) * 256 + n * 6 + 4 + i + 128)
                   = ucast (drop_bit 8 (FontDouble ?F ! 0 ! i)))"
      by auto
    have sent: "Print ?F ?hello 0 0 True True ?s
           = Inr (?s\<lparr>mFramebuffer := fb', mI2CMaster := Some [(0x3C, take 1025 fb')]\<rparr>)"
      using run by simp
    have first_byte: "fb' ! 4 = 0x03"
      using cells [rule_format, of 0 0] by (simp add: glyph_H)
    have cleared: "\<forall>n. 5 \<le> n \<and> n < 20 \<longrightarrow> (\<forall>i<6. fb' ! (n * 6 + 4 + i) = 0
                                           \<and> fb' ! (n * 6 + 4 + i + 128) = 0)"
      using blanks by (simp add: glyph_space)
    from sent first_byte cleared show ?thesis by blast
  qed
  show ?thesis
    by (intro conjI) (rule first second)+
qed

subsection \<open>The control byte on a display as constructed\<close>

lemma Clear_returns:
  assumes "mI2CMaster this = Some bus"
    and "unat (mHeight this) * 16 + 1 \<le> length (mFramebuffer this)"
  shows "\<exists>this'. Clear this = Inr this'"
  using assms by (simp add: Clear_def Let_def WriteFramebuffer_def I2C_Write_def)

text \<open>
  The driver as constructed for a 128x64 display, and each operation on it: all of them
  return, and the byte 0 is \<open>0x40\<close> afterwards.
\<close>

theorem control_byte_invariant_witness:
  "CSSD1306_new 1025 (replicate 9 0) (replicate 9 0) (Some []) 0x3C 64
     = Inr \<lparr> mPartLevels = replicate 9 0, mPeakLevels = replicate 9 0, mI2CMaster = Some [],
             mAddress = 0x3C, mHeight = 64, mFramebuffer = 0x40 # replicate 1024 0 \<rparr>
   \<and> mFramebuffer \<lparr> mPartLevels = replicate 9 0, mPeakLevels = replicate 9 0,
                     mI2CMaster = Some [], mAddress = 0x3C, mHeight = 64,
                     mFramebuffer = 0x40 # replicate 1024 0 \<rparr> ! 0 = 0x40
   \<and> (\<exists>this'. SetPixel 3 10
                  \<lparr> mPartLevels = replicate 9 0, mPeakLevels = replicate 9 0, mI2CMaster = Some [],
                    mAddress = 0x3C, mHeight = 64, mFramebuffer = 0x40 # replicate 1024 0 \<rparr>
                = Inr this' \<and> mFramebuffer this' ! 0 = 0x40)
   \<and> (\<exists>this'. ClearPixel 3 10
                  \<lparr> mPartLevels = replicate 9 0, mPeakLevels = replicate 9 0, mI2CMaster = Some [],
                    mAddress = 0x3C, mHeight = 64, mFramebuffer = 0x40 # replicate 1024 0 \<rparr>
                = Inr this' \<and> mFramebuffer this' ! 0 = 0x40)
   \<and> (\<exists>this'. DrawChar (replicate 97 (replicate 8 0)) 0x41 0 0 False False
                  \<lparr> mPartLevels = replicate 9 0, mPeakLevels = replicate 9 0, mI2CMaster = Some [],
                    mAddress = 0x3C, mHeight = 64, mFramebuffer = 0x40 # replicate 1024 0 \<rparr>
                = Inr this' \<and> mFramebuffer this' ! 0 = 0x40)
   \<and> (\<exists>this'. Print (replicate 97 (replicate 8 0)) [0x48, 0x45, 0x4C, 0x4C, 0x4F] 0 0 True False
                  \<lparr> mPartLevels = replicate 9 0, mPeakLevels = replicate 9 0, mI2CMaster = Some [],
                    mAddress = 0x3C, mHeight = 64, mFramebuffer = 0x40 # replicate 1024 0 \<rparr>
                = Inr this' \<and> mFramebuffer this' ! 0 = 0x40)
   \<and> (\<exists>this'. DrawPartLevels True
                  \<lparr> mPartLevels = replicate 9 0, mPeakLevels = replicate 9 0, mI2CMaster = Some [],
                    mAddress = 0x3C, mHeight = 64, mFramebuffer = 0x40 # replicate 1024 0 \<rparr>
                = Inr this' \<and> mFramebuffer this' ! 0 = 0x40)
   \<and> (\<exists>this'. Clear
                  \<lparr> mPartLevels = replicate 9 0, mPeakLevels = replicate 9 0, mI2CMaster = Some [],
                    mAddress = 0x3C, mHeight = 64, mFramebuffer = 0x40 # replicate 1024 0 \<rparr>
                = Inr this' \<and> mFramebuffer this' ! 0 = 0x40)"
  (is "CSSD1306_new _ _ _ _ _ _ = Inr ?s \<and> _")
proof -
  let ?F = "replicate 97 (replicate 8 (0::u8))"
  let ?hello = "[0x48, 0x45, 0x4C, 0x4C, 0x4F] :: u8 list"
  have new: "CSSD1306_new 1025 (replicate 9 0) (replicate 9 0) (Some []) 0x3C 64 = Inr ?s"
    by (simp add: CSSD1306_new_def)
  have marker: "mFramebuffer ?s ! 0 = 0x40"
    using control_byte_invariant
      [where n = 1025 and levels = "replicate 9 0" and peaks = "replicate 9 0"
         and pI2CMaster = "Some []" and nAddress = "0x3C" and nHeight = 64 and this = ?s,
       THEN conjunct1] new
    by (rule mp)
  have set: "\<exists>this'. SetPixel 3 10 ?s = Inr this' \<and> mFramebuffer this' ! 0 = 0x40"
  proof -
    obtain this' where run: "SetPixel 3 10 ?s = Inr this'"
      by (simp add: SetPixel_eq Offset_def)
    from control_byte_invariant
      [where this = ?s and this' = this' and nX = 3 and nY = 10,
       THEN conjunct2, THEN conjunct1] run
    have "mFramebuffer this' ! 0 = mFramebuffer ?s ! 0" by (rule mp)
    with run show ?thesis by simp
  qed
  have clear: "\<exists>this'. ClearPixel 3 10 ?s = Inr this' \<and> mFramebuffer this' ! 0 = 0x40"
  proof -
    obtain this' where run: "ClearPixel 3 10 ?s = Inr this'"
      by (simp add: ClearPixel_eq Offset_def)
    from control_byte_invariant
      [where this = ?s and this' = this' and nX = 3 and nY = 10,
       THEN conjunct2, THEN conjunct2, THEN conjunct1] run
    have "mFramebuffer this' ! 0 = mFramebuffer ?s ! 0" by (rule mp)
    with run show ?thesis by simp
  qed
  have char: "\<exists>this'. DrawChar ?F 0x41 0 0 False False ?s = Inr this'
                \<and> mFramebuffer this' ! 0 = 0x40"
  proof -
    have "unat ((if (0x41::u8) = 0xFF then 0x80 else 0x41 :: u8) - 32) < length ?F"
      by simp
    moreover have "CellOffset (unat (0::u8)) (unat (0::u8)) + 5 + 128 < length (mFramebuffer ?s)"
      by (simp add: CellOffset_def)
    ultimately obtain this' where run: "DrawChar ?F 0x41 0 0 False False ?s = Inr this'"
      using DrawChar_cell [of "0x41" ?F 0 0 ?s] by blast
    from control_byte_invariant
      [of _ _ _ _ _ _ ?s _ _ this' ?F "0x41" 0 0 False False,
       THEN conjunct2, THEN conjunct2, THEN conjunct2, THEN conjunct1] run
    have "mFramebuffer this' ! 0 = mFramebuffer ?s ! 0" by (rule mp)
    with run show ?thesis by simp
  qed
  have print: "\<exists>this'. Print ?F ?hello 0 0 True False ?s = Inr this'
                \<and> mFramebuffer this' ! 0 = 0x40"
  proof -
    have "0 \<notin> set ?hello" "length ?hello = 5"
      "\<forall>c\<in>set ?hello. unat ((if c = 0xFF then 0x80 else c) - 32) < length ?F"
      "?F \<noteq> []"
      "CellOffset 19 (unat (0::u8)) + 5 + 128 < length (mFramebuffer ?s)"
      by (simp_all add: CellOffset_def)
    from Print_5_characters_blank_cells [OF this]
    obtain this' where run: "Print ?F ?hello 0 0 True False ?s = Inr this'"
      by blast
    from control_byte_invariant
      [of _ _ _ _ _ _ ?s _ _ this' ?F _ 0 0 _ _ ?hello True False,
       THEN conjunct2, THEN conjunct2, THEN conjunct2, THEN conjunct2, THEN conjunct1] run
    have "mFramebuffer this' ! 0 = mFramebuffer ?s ! 0" by (rule mp)
    with run show ?thesis by simp
  qed
  have levels: "\<exists>this'. DrawPartLevels True ?s = Inr this' \<and> mFramebuffer this' ! 0 = 0x40"
  proof -
    have "9 \<le> length (mPartLevels ?s)" "9 \<le> length (mPeakLevels ?s)"
      "\<forall>i<9. mPartLevels ?s ! i \<le> 16 \<and> mPeakLevels ?s ! i \<le> 16"
      "511 \<le> length (mFramebuffer ?s)"
      by simp_all
    from DrawPartLevels_with_peaks [OF this]
    obtain this' where run: "DrawPartLevels True ?s = Inr this'"
      by blast
    from control_byte_invariant
      [where this = ?s and this' = this' and bDrawPeaks = True,
       THEN conjunct2, THEN conjunct2, THEN conjunct2, THEN conjunct2, THEN conjunct2,
       THEN conjunct1] run
    have "mFramebuffer this' ! 0 = mFramebuffer ?s ! 0" by (rule mp)
    with run show ?thesis by simp
  qed
  have cleared: "\<exists>this'. Clear ?s = Inr this' \<and> mFramebuffer this' ! 0 = 0x40"
  proof -
    have "mI2CMaster ?s = Some []" "unat (mHeight ?s) * 16 + 1 \<le> length (mFramebuffer ?s)"
      by simp_all
    from Clear_returns [OF this]
    obtain this' where run: "Clear ?s = Inr this'"
      by blast
    from control_byte_invariant
      [where this = ?s and this' = this',
       THEN conjunct2, THEN conjunct2, THEN conjunct2, THEN conjunct2, THEN conjunct2,
       THEN conjunct2] run
    have "mFramebuffer this' ! 0 = mFramebuffer ?s ! 0" by (rule mp)
    with run show ?thesis by simp
  qed
  show ?thesis
    by (intro conjI) (rule new marker set clear char print levels cleared)+
qed

end
